theory Spec2Isabelle
  imports Main
begin

section \<open>The Chapter model of builderbook (server/models/Chapter.js)\<close>

text \<open>
  JavaScript strings are modelled as \<^typ>\<open>string\<close>: a character is a code unit below
  256, that is the Latin-1 range of Unicode; characters above it are not represented.
  Word characters and decimal digits are the ASCII ones, as for a regular expression
  without the unicode flag; white space and letter case are those of ECMAScript on this
  range.
\<close>

subsection \<open>String primitives used by the source\<close>

definition is_digit :: "char \<Rightarrow> bool" where
  "is_digit c = (of_char (CHR ''0'') \<le> (of_char c :: nat) \<and> (of_char c :: nat) \<le> of_char (CHR ''9''))"

definition is_upper :: "char \<Rightarrow> bool" where
  "is_upper c = (of_char (CHR ''A'') \<le> (of_char c :: nat) \<and> (of_char c :: nat) \<le> of_char (CHR ''Z''))"

definition is_lower :: "char \<Rightarrow> bool" where
  "is_lower c = (of_char (CHR ''a'') \<le> (of_char c :: nat) \<and> (of_char c :: nat) \<le> of_char (CHR ''z''))"

text \<open>The word characters of a regular expression: \<^verbatim>\<open>[A-Za-z0-9_]\<close>.\<close>

definition is_word :: "char \<Rightarrow> bool" where
  "is_word c = (is_upper c \<or> is_lower c \<or> is_digit c \<or> c = CHR ''_'')"

text \<open>White space removed by \<open>String.prototype.trim\<close> and skipped by \<open>parseInt\<close>:
  tab, line feed, vertical tab, form feed, carriage return, space and no-break space.\<close>

definition is_space :: "char \<Rightarrow> bool" where
  "is_space c = (of_char c \<in> {9::nat, 10, 11, 12, 13, 32, 160})"

definition trim :: "string \<Rightarrow> string" where
  "trim s = rev (dropWhile is_space (rev (dropWhile is_space s)))"

text \<open>The upper-case letters of the Latin-1 supplement: U+00C0 to U+00DE without the
  multiplication sign U+00D7. Their lower-case forms are 32 code points above, as for the
  ASCII letters.\<close>

definition is_latin1_upper :: "char \<Rightarrow> bool" where
  "is_latin1_upper c =
     (192 \<le> (of_char c :: nat) \<and> (of_char c :: nat) \<le> 222 \<and> (of_char c :: nat) \<noteq> 215)"

definition lower_char :: "char \<Rightarrow> char" where
  "lower_char c =
     (if is_upper c \<or> is_latin1_upper c then char_of (of_char c + (32::nat)) else c)"

definition toLowerCase :: "string \<Rightarrow> string" where
  "toLowerCase s = map lower_char s"

text \<open>
  The global replace of every match of "one or more non-word characters" by a hyphen,
  as a scan from the left. At a word character the
  pattern does not match and the character is copied; at any other character the greedy
  \<open>+\<close> consumes the whole run of non-word characters and one hyphen is written.
\<close>

function replace_nonword :: "string \<Rightarrow> string" where
  "replace_nonword [] = []"
| "replace_nonword (c # cs) =
     (if is_word c then c # replace_nonword cs
      else CHR ''-'' # replace_nonword (dropWhile (\<lambda>d. \<not> is_word d) cs))"
  by pat_completeness auto
termination
  by (relation "measure length") (auto simp: less_Suc_eq_le length_dropWhile_le)

text \<open>The anchor computed in both heading renderers: the text trimmed, lower-cased,
  then passed through the global replace.\<close>

definition escapedText_of :: "string \<Rightarrow> string" where
  "escapedText_of text = replace_nonword (toLowerCase (trim text))"

subsection \<open>The anchor, as the specification words it\<close>

text \<open>
  The specification describes the anchor as the heading text "trimmed, lower-cased, with
  every run of non-word characters replaced by a single hyphen". The definitions of this
  subsection follow these words and share nothing with the ones above: the white-space
  characters, the word characters and the letters are listed one by one.
\<close>

definition white_space_chars :: "char list" where
  "white_space_chars = [CHR 0x09, CHR 0x0A, CHR 0x0B, CHR 0x0C, CHR 0x0D, CHR 0x20, CHR 0xA0]"

definition word_chars :: "char list" where
  "word_chars = ''abcdefghijklmnopqrstuvwxyzABCDEFGHIJKLMNOPQRSTUVWXYZ0123456789_''"

definition upper_letters :: "char list" where
  "upper_letters = ''ABCDEFGHIJKLMNOPQRSTUVWXYZ'' @
     [CHR 0xC0, CHR 0xC1, CHR 0xC2, CHR 0xC3, CHR 0xC4, CHR 0xC5, CHR 0xC6, CHR 0xC7, CHR
      0xC8, CHR 0xC9, CHR 0xCA, CHR 0xCB, CHR 0xCC, CHR 0xCD, CHR 0xCE, CHR 0xCF, CHR
      0xD0, CHR 0xD1, CHR 0xD2, CHR 0xD3, CHR 0xD4, CHR 0xD5, CHR 0xD6, CHR 0xD8, CHR
      0xD9, CHR 0xDA, CHR 0xDB, CHR 0xDC, CHR 0xDD, CHR 0xDE]"

definition lower_letters :: "char list" where
  "lower_letters = ''abcdefghijklmnopqrstuvwxyz'' @
     [CHR 0xE0, CHR 0xE1, CHR 0xE2, CHR 0xE3, CHR 0xE4, CHR 0xE5, CHR 0xE6, CHR 0xE7, CHR
      0xE8, CHR 0xE9, CHR 0xEA, CHR 0xEB, CHR 0xEC, CHR 0xED, CHR 0xEE, CHR 0xEF, CHR
      0xF0, CHR 0xF1, CHR 0xF2, CHR 0xF3, CHR 0xF4, CHR 0xF5, CHR 0xF6, CHR 0xF8, CHR
      0xF9, CHR 0xFA, CHR 0xFB, CHR 0xFC, CHR 0xFD, CHR 0xFE]"

text \<open>Trimmed: without the white space at its start and at its end.\<close>

fun strip_left :: "string \<Rightarrow> string" where
  "strip_left [] = []"
| "strip_left (c # cs) = (if c \<in> set white_space_chars then strip_left cs else c # cs)"

definition trimmed :: "string \<Rightarrow> string" where
  "trimmed s = rev (strip_left (rev (strip_left s)))"

text \<open>Lower-cased: every upper-case letter replaced by the lower-case letter at the same
  place of the alphabet.\<close>

definition lower_cased :: "string \<Rightarrow> string" where
  "lower_cased s =
     map (\<lambda>c. case map_of (zip upper_letters lower_letters) c of None \<Rightarrow> c | Some l \<Rightarrow> l) s"

text \<open>
  \<open>runs\<close> cuts a string into its maximal runs of word and of non-word characters, each
  tagged with its class; \<open>hyphenate_runs\<close> keeps the word runs and writes one hyphen for
  each other run.
\<close>

fun runs :: "string \<Rightarrow> (bool \<times> string) list" where
  "runs [] = []"
| "runs (c # cs) =
     (case runs cs of
        [] \<Rightarrow> [(c \<in> set word_chars, [c])]
      | (w, r) # rs \<Rightarrow>
          if (c \<in> set word_chars) = w then (w, c # r) # rs
          else (c \<in> set word_chars, [c]) # (w, r) # rs)"

definition hyphenate_runs :: "(bool \<times> string) list \<Rightarrow> string" where
  "hyphenate_runs rs = concat (map (\<lambda>(w, r). if w then r else ''-'') rs)"

definition anchor_spec :: "string \<Rightarrow> string" where
  "anchor_spec t = hyphenate_runs (runs (lower_cased (trimmed t)))"

subsection \<open>Numbers and the chapter order\<close>

text \<open>
  A JavaScript number that holds an integer, or one of the three values that are not
  finite numbers. Only integers arise in the order computation.
\<close>

datatype jsnum = NaN | PosInfinity | NegInfinity | Num int

fun bit_length :: "nat \<Rightarrow> nat" where
  "bit_length n = (if n = 0 then 0 else Suc (bit_length (n div 2)))"

text \<open>
  The Number value for a natural number: itself up to \<open>2^53\<close>; above, the nearest number
  with a 53-bit significand, ties to the even significand, and infinity from \<open>2^1024\<close> on.
\<close>

definition number_of_nat :: "nat \<Rightarrow> jsnum" where
  "number_of_nat n =
     (if n \<le> 2 ^ 53 then Num (int n)
      else
        let e = bit_length n - 53;
            q = n div 2 ^ e;
            r = n mod 2 ^ e;
            h = 2 ^ (e - 1);
            q' = (if h < r \<or> (r = h \<and> odd q) then q + 1 else q);
            v = q' * 2 ^ e
        in if 2 ^ 1024 \<le> v then PosInfinity else Num (int v))"

definition js_negate :: "jsnum \<Rightarrow> jsnum" where
  "js_negate x =
     (case x of NaN \<Rightarrow> NaN | PosInfinity \<Rightarrow> NegInfinity | NegInfinity \<Rightarrow> PosInfinity
      | Num i \<Rightarrow> Num (- i))"

definition number_of_int :: "int \<Rightarrow> jsnum" where
  "number_of_int i = (if i < 0 then js_negate (number_of_nat (nat (- i))) else number_of_nat (nat i))"

text \<open>\<open>x + 1\<close> on numbers: the exact sum, rounded to a Number.\<close>

definition js_plus_one :: "jsnum \<Rightarrow> jsnum" where
  "js_plus_one x =
     (case x of NaN \<Rightarrow> NaN | PosInfinity \<Rightarrow> PosInfinity | NegInfinity \<Rightarrow> NegInfinity
      | Num i \<Rightarrow> number_of_int (i + 1))"

definition digit_value :: "char \<Rightarrow> nat" where
  "digit_value c = of_char c - of_char (CHR ''0'')"

text \<open>The integer a string of decimal digits denotes.\<close>

definition digits_value :: "string \<Rightarrow> nat" where
  "digits_value ds = foldl (\<lambda>acc c. 10 * acc + digit_value c) 0 ds"

text \<open>
  \<open>parseInt(s, 10)\<close>: leading white space is skipped, an optional sign is read, then the
  longest prefix of decimal digits; with no digit the result is \<open>NaN\<close>.
\<close>

definition parseInt10 :: "string \<Rightarrow> jsnum" where
  "parseInt10 str =
     (let s = dropWhile is_space str;
          neg = (s \<noteq> [] \<and> hd s = CHR ''-'');
          s' = (if s \<noteq> [] \<and> (hd s = CHR ''-'' \<or> hd s = CHR ''+'') then tl s else s);
          z = takeWhile is_digit s'
      in if z = [] then NaN
         else if neg then js_negate (number_of_nat (digits_value z))
         else number_of_nat (digits_value z))"

text \<open>
  \<open>path.match(/[0-9]+/)\<close>: \<open>null\<close> when the path has no digit, otherwise an array whose
  only element is the first maximal run of digits.
\<close>

definition match_digits :: "string \<Rightarrow> string option" where
  "match_digits path =
     (let rest = dropWhile (\<lambda>c. \<not> is_digit c) path
      in if rest = [] then None else Some (takeWhile is_digit rest))"

text \<open>\<open>parseInt\<close> first turns its argument into a string: \<open>null\<close> becomes the string
  "null", a one-element array becomes its element.\<close>

definition match_toString :: "string option \<Rightarrow> string" where
  "match_toString m = (case m of None \<Rightarrow> ''null'' | Some x \<Rightarrow> x)"

text \<open>The order computed by \<open>syncContent\<close> from the source path.\<close>

definition chapter_order :: "string \<Rightarrow> jsnum" where
  "chapter_order path =
     (if path = ''introduction.md'' then Num 1
      else js_plus_one (parseInt10 (match_toString (match_digits path))))"

subsection \<open>Documents and the store\<close>

type_synonym objectId = string

text \<open>An exception of the source, with its message.\<close>

datatype error = Error string

text \<open>A value that is a boolean or \<open>undefined\<close> (the \<open>isAdmin\<close> argument, the
  \<open>isPurchased\<close> property).\<close>

datatype jsval = JSUndefined | JSBool bool

definition truthy :: "jsval \<Rightarrow> bool" where
  "truthy v = (v = JSBool True)"

text \<open>An optional id argument is truthy when it is given and not the empty string.\<close>

definition truthy_id :: "objectId option \<Rightarrow> bool" where
  "truthy_id u = (case u of None \<Rightarrow> False | Some i \<Rightarrow> i \<noteq> [])"

text \<open>An entry of a chapter's \<open>sections\<close>.\<close>

record chapter_section =
  s_text :: string
  s_level :: nat
  s_escapedText :: string

text \<open>
  In a stored chapter every section is a sub-document: the entry and an id of its own.
  The store gives these ids whenever it is handed the array, on create and on \<open>$set\<close>;
  \<open>subId i\<close> is the id given to the sub-document at index \<open>i\<close> in one such write.
\<close>

record stored_section =
  ss_id :: objectId
  ss_text :: string
  ss_level :: nat
  ss_escapedText :: string

definition entry_of :: "stored_section \<Rightarrow> chapter_section" where
  "entry_of x = \<lparr>s_text = ss_text x, s_level = ss_level x, s_escapedText = ss_escapedText x\<rparr>"

definition cast_sections :: "(nat \<Rightarrow> objectId) \<Rightarrow> chapter_section list \<Rightarrow> stored_section list" where
  "cast_sections subId secs =
     map (\<lambda>(i, e). \<lparr>ss_id = subId i, ss_text = s_text e, ss_level = s_level e,
                     ss_escapedText = s_escapedText e\<rparr>)
         (enumerate 0 secs)"

record chapter_doc =
  c_id :: objectId
  c_bookId :: objectId
  c_isFree :: bool
  c_githubFilePath :: string
  c_title :: string
  c_slug :: string
  c_excerpt :: string
  c_content :: string
  c_htmlContent :: string
  c_createdAt :: nat
  c_order :: jsnum
  c_seoTitle :: string
  c_seoDescription :: string
  c_sections :: "stored_section list"

text \<open>
  Modelled from the spec: the sibling models Book and Purchase are not part of this file.
  A book has an id; a purchase belongs to a user and a book and embeds a list of
  bookmarks, each a sub-document with its own id, the chapter it marks, a content hash
  and an excerpt text. These are the fields this file reads and writes.
\<close>

record book =
  b_id :: objectId
  b_slug :: string

record bookmark =
  bm_id :: objectId
  bm_chapterId :: objectId
  bm_hash :: string
  bm_text :: string

record purchase =
  p_id :: objectId
  p_userId :: objectId
  p_bookId :: objectId
  p_bookmarks :: "bookmark list"

text \<open>The three collections. The store is taken to accept every write: its validation
  and unique-index failures are outside this model.\<close>

record db =
  chapters :: "chapter_doc list"
  books :: "book list"
  purchases :: "purchase list"

text \<open>\<open>updateOne\<close> and \<open>save\<close> change the first document the filter selects.\<close>

fun update_first :: "('a \<Rightarrow> bool) \<Rightarrow> ('a \<Rightarrow> 'a) \<Rightarrow> 'a list \<Rightarrow> 'a list" where
  "update_first P f [] = []"
| "update_first P f (x # xs) = (if P x then f x # xs else x # update_first P f xs)"

definition Chapter_findById :: "db \<Rightarrow> objectId \<Rightarrow> chapter_doc option" where
  "Chapter_findById d i = find (\<lambda>c. c_id c = i) (chapters d)"

definition Book_findById :: "db \<Rightarrow> objectId \<Rightarrow> book option" where
  "Book_findById d i = find (\<lambda>b. b_id b = i) (books d)"

definition Purchase_findOne :: "db \<Rightarrow> objectId \<Rightarrow> objectId \<Rightarrow> purchase option" where
  "Purchase_findOne d userId bookId =
     find (\<lambda>p. p_userId p = userId \<and> p_bookId p = bookId) (purchases d)"

definition Chapter_findOne_slug :: "db \<Rightarrow> objectId \<Rightarrow> string \<Rightarrow> chapter_doc option" where
  "Chapter_findOne_slug d bookId slug =
     find (\<lambda>c. c_bookId c = bookId \<and> c_slug c = slug) (chapters d)"

definition Chapter_findOne_path :: "db \<Rightarrow> objectId \<Rightarrow> string \<Rightarrow> chapter_doc option" where
  "Chapter_findOne_path d bookId path =
     find (\<lambda>c. c_bookId c = bookId \<and> c_githubFilePath c = path) (chapters d)"

text \<open>\<open>purchase.save()\<close> after the bookmarks were changed: the stored purchase with this
  id receives the new bookmark list.\<close>

definition Purchase_save :: "db \<Rightarrow> purchase \<Rightarrow> db" where
  "Purchase_save d p =
     d\<lparr>purchases :=
         update_first (\<lambda>q. p_id q = p_id p) (\<lambda>q. q\<lparr>p_bookmarks := p_bookmarks p\<rparr>) (purchases d)\<rparr>"

subsection \<open>External services\<close>

text \<open>
  The Markdown renderer (marked), the entity decoder (he) and the slug generator
  (\<open>../utils/slugify\<close>) are libraries outside this file; they are parameters of the model.
  \<^item> \<open>he_decode\<close> is \<open>he.decode\<close>.
  \<^item> \<open>marked_headings src\<close> is the sequence of \<open>(text, level)\<close> pairs with which a run
    of marked on \<open>src\<close> calls \<open>renderer.heading\<close>, in document order.
  \<^item> \<open>marked_html src\<close> is the string a run of marked returns under the renderer and
    options installed by \<open>markdownToHtml\<close>.
  \<^item> \<open>marked_plain src\<close> is the string a run of marked returns under the renderer
    installed by \<open>getSections\<close> (whose heading callback returns nothing).
  \<^item> \<open>generateSlug docs title bookId\<close> is the slug generator called on the Chapter
    collection (its documents at the time of the call), with a title and the id of the
    book the slug is scoped to.
\<close>

record services =
  he_decode :: "string \<Rightarrow> string"
  marked_headings :: "string \<Rightarrow> (string \<times> nat) list"
  marked_html :: "string \<Rightarrow> string"
  marked_plain :: "string \<Rightarrow> string"
  generateSlug :: "chapter_doc list \<Rightarrow> string \<Rightarrow> objectId \<Rightarrow> string"

subsection \<open>Rendering and section extraction\<close>

text \<open>\<open>markdownToHtml\<close>: installs its renderer and options, then returns
  \<open>marked(he.decode(content))\<close>.\<close>

definition markdownToHtml :: "services \<Rightarrow> string \<Rightarrow> string" where
  "markdownToHtml sv content = marked_html sv (he_decode sv content)"

text \<open>
  The heading callback installed by \<open>getSections\<close>. It closes over the array
  \<open>sections\<close>; the array is threaded through as state. A heading whose level is not 2
  returns at once; any other is pushed at the end.
\<close>

definition sections_heading :: "string \<Rightarrow> nat \<Rightarrow> chapter_section list \<Rightarrow> chapter_section list" where
  "sections_heading t lvl sections =
     (if lvl \<noteq> 2 then sections
      else sections @ [\<lparr>s_text = t, s_level = lvl, s_escapedText = escapedText_of t\<rparr>])"

text \<open>
  A run of marked while the renderer of \<open>getSections\<close> is the installed one: every
  heading of the source goes through \<open>sections_heading\<close>, in document order. The result
  is the returned string and the array as the callbacks left it.
\<close>

definition marked_collecting :: "services \<Rightarrow> string \<Rightarrow> chapter_section list \<Rightarrow> string \<times> chapter_section list" where
  "marked_collecting sv src sections =
     (marked_plain sv src, fold (\<lambda>(t, lvl). sections_heading t lvl) (marked_headings sv src) sections)"

text \<open>\<open>getSections\<close>: a fresh empty array, one run of marked on the decoded content whose
  output is dropped, and the array is returned.\<close>

definition getSections :: "services \<Rightarrow> string \<Rightarrow> chapter_section list" where
  "getSections sv content = snd (marked_collecting sv (he_decode sv content) [])"

text \<open>The level-2 headings of a content, in document order: those heading callbacks of
  the run on the decoded content whose level is 2.\<close>

definition level2_headings :: "services \<Rightarrow> string \<Rightarrow> string list" where
  "level2_headings sv content =
     map fst (filter (\<lambda>(t, lvl). lvl = 2) (marked_headings sv (he_decode sv content)))"

subsection \<open>addBookmark\<close>

text \<open>\<open>bookmarks.pull(id)\<close>: every sub-document with this id is removed, in place.\<close>

definition pull :: "objectId \<Rightarrow> bookmark list \<Rightarrow> bookmark list" where
  "pull i bms = filter (\<lambda>m. bm_id m \<noteq> i) bms"

text \<open>
  The \<open>forEach\<close> over \<open>purchase.bookmarks\<close> whose callback pulls from the same array.
  \<open>forEach\<close> reads the length once (\<open>len\<close>), then visits the indices \<open>0 .. len - 1\<close>
  in turn; an index that is no longer in the array is skipped, and the callback gets the
  element that is at the index at the time of the visit.
\<close>

function forEach_pull :: "objectId \<Rightarrow> nat \<Rightarrow> nat \<Rightarrow> bookmark list \<Rightarrow> bookmark list" where
  "forEach_pull chapterId len k bms =
     (if k < len then
        (if k < length bms then
           (if bm_chapterId (bms ! k) = chapterId
            then forEach_pull chapterId len (Suc k) (pull (bm_id (bms ! k)) bms)
            else forEach_pull chapterId len (Suc k) bms)
         else forEach_pull chapterId len (Suc k) bms)
      else bms)"
  by pat_completeness auto
termination
  by (relation "measure (\<lambda>(chapterId, len, k, bms). len - k)") auto

declare forEach_pull.simps [simp del]

text \<open>
  The two statements that change the array: the \<open>forEach\<close> that pulls the bookmarks of
  the chapter, then the push of the new bookmark. \<open>newId\<close> is the id the pushed
  sub-document receives.
\<close>

definition replace_bookmark ::
  "objectId \<Rightarrow> objectId \<Rightarrow> string \<Rightarrow> string \<Rightarrow> bookmark list \<Rightarrow> bookmark list" where
  "replace_bookmark chapterId newId hash t bms =
     forEach_pull chapterId (length bms) 0 bms
       @ [\<lparr>bm_id = newId, bm_chapterId = chapterId, bm_hash = hash, bm_text = t\<rparr>]"

text \<open>\<open>addBookmark\<close> returns the saved purchase, or the error raised, and the store.\<close>

definition addBookmark ::
  "db \<Rightarrow> objectId \<Rightarrow> objectId \<Rightarrow> string \<Rightarrow> string \<Rightarrow> objectId option \<Rightarrow> (error + purchase) \<times> db" where
  "addBookmark d newId chapterId hash t userId =
     (case userId of
        None \<Rightarrow> (Inl (Error ''User is required''), d)
      | Some uid \<Rightarrow>
          if uid = [] then (Inl (Error ''User is required''), d)
          else
            (case Chapter_findById d chapterId of
               None \<Rightarrow> (Inl (Error ''Chapter not found''), d)
             | Some chapter \<Rightarrow>
                 (case Book_findById d (c_bookId chapter) of
                    None \<Rightarrow> (Inl (Error ''Book not found''), d)
                  | Some book \<Rightarrow>
                      (case Purchase_findOne d uid (b_id book) of
                         None \<Rightarrow> (Inl (Error ''You have not bought this book.''), d)
                       | Some purchase \<Rightarrow>
                           let purchase' = purchase\<lparr>p_bookmarks :=
                                 replace_bookmark chapterId newId hash t (p_bookmarks purchase)\<rparr>
                           in (Inr purchase', Purchase_save d purchase')))))"

subsection \<open>getBySlug\<close>

text \<open>
  The plain object \<open>getBySlug\<close> returns: the chapter's fields as \<open>toObject\<close> copies them,
  and the properties the method adds. \<open>co_content\<close> is \<open>None\<close> once the property has been
  deleted; \<open>co_isPurchased\<close> reads as \<open>undefined\<close> while the property is not set.
\<close>

record chapterObj =
  co_id :: objectId
  co_bookId :: objectId
  co_isFree :: bool
  co_githubFilePath :: string
  co_title :: string
  co_slug :: string
  co_excerpt :: string
  co_content :: "string option"
  co_htmlContent :: string
  co_createdAt :: nat
  co_order :: jsnum
  co_seoTitle :: string
  co_seoDescription :: string
  co_sections :: "stored_section list"
  co_book :: "book option"
  co_isPurchased :: jsval
  co_bookmark :: "bookmark option"

definition toObject :: "chapter_doc \<Rightarrow> chapterObj" where
  "toObject c =
     \<lparr>co_id = c_id c, co_bookId = c_bookId c, co_isFree = c_isFree c,
      co_githubFilePath = c_githubFilePath c, co_title = c_title c, co_slug = c_slug c,
      co_excerpt = c_excerpt c, co_content = Some (c_content c),
      co_htmlContent = c_htmlContent c, co_createdAt = c_createdAt c, co_order = c_order c,
      co_seoTitle = c_seoTitle c, co_seoDescription = c_seoDescription c,
      co_sections = c_sections c, co_book = None, co_isPurchased = JSUndefined,
      co_bookmark = None\<rparr>"

text \<open>The \<open>forEach\<close> that attaches the user's bookmark of this chapter: each matching
  bookmark overwrites the property, so the last one stays.\<close>

definition attach_bookmark :: "objectId \<Rightarrow> bookmark list \<Rightarrow> chapterObj \<Rightarrow> chapterObj" where
  "attach_bookmark chapterId bms obj =
     fold (\<lambda>b obj'. if chapterId = bm_chapterId b then obj'\<lparr>co_bookmark := Some b\<rparr> else obj')
          bms obj"

text \<open>
  The block of \<open>getBySlug\<close> guarded by \<open>if (userId)\<close>: the purchase of the user is looked
  up, \<open>isPurchased\<close> is set to \<open>!!purchase || isAdmin\<close>, and the bookmark is attached.
\<close>

definition flag_purchase ::
  "db \<Rightarrow> book \<Rightarrow> chapter_doc \<Rightarrow> objectId option \<Rightarrow> jsval \<Rightarrow> chapterObj \<Rightarrow> chapterObj" where
  "flag_purchase d book chapter userId isAdmin chapterObj =
     (case userId of
        None \<Rightarrow> chapterObj
      | Some uid \<Rightarrow>
          if uid = [] then chapterObj
          else
            let purchase = Purchase_findOne d uid (b_id book);
                flagged = chapterObj\<lparr>co_isPurchased :=
                            (if purchase \<noteq> None then JSBool True else isAdmin)\<rparr>
            in attach_bookmark (c_id chapter)
                 (case purchase of None \<Rightarrow> [] | Some p \<Rightarrow> p_bookmarks p) flagged)"

text \<open>
  The end of \<open>getBySlug\<close>: \<open>isPurchased\<close> is \<open>chapter.isFree || chapterObj.isPurchased\<close>,
  and the content is deleted from the object when it is not truthy.
\<close>

definition withhold_content :: "chapter_doc \<Rightarrow> chapterObj \<Rightarrow> chapterObj" where
  "withhold_content chapter chapterObj =
     (let isPurchased = (if c_isFree chapter then JSBool True else co_isPurchased chapterObj)
      in if \<not> truthy isPurchased then chapterObj\<lparr>co_content := None\<rparr> else chapterObj)"

text \<open>
  \<open>Book.getBySlug\<close> belongs to the Book model, which is not part of this file; it is the
  parameter \<open>bookGetBySlug\<close>, called with the book slug and the user id, and returns the
  book or nothing.
\<close>

definition getBySlug ::
  "(string \<Rightarrow> objectId option \<Rightarrow> book option) \<Rightarrow> db \<Rightarrow> string \<Rightarrow> string \<Rightarrow> objectId option \<Rightarrow> jsval
     \<Rightarrow> error + chapterObj" where
  "getBySlug bookGetBySlug d bookSlug chapterSlug userId isAdmin =
     (case bookGetBySlug bookSlug userId of
        None \<Rightarrow> Inl (Error ''Not found'')
      | Some book \<Rightarrow>
          (case Chapter_findOne_slug d (b_id book) chapterSlug of
             None \<Rightarrow> Inl (Error ''Not found'')
           | Some chapter \<Rightarrow>
               let chapterObj = (toObject chapter)\<lparr>co_book := Some book\<rparr>;
                   chapterObj' = flag_purchase d book chapter userId isAdmin chapterObj
               in Inr (withhold_content chapter chapterObj')))"

subsection \<open>syncContent\<close>

text \<open>The payload: front-matter attributes (all but the title may be absent, and then
  take the default of the destructuring), the body and the source path.\<close>

record attributes =
  a_title :: string
  a_excerpt :: "string option"
  a_isFree :: "bool option"
  a_seoTitle :: "string option"
  a_seoDescription :: "string option"

text \<open>A destructuring default: the value given when the property is \<open>undefined\<close>.\<close>

definition or_default :: "'a \<Rightarrow> 'a option \<Rightarrow> 'a" where
  "or_default v x = (case x of None \<Rightarrow> v | Some y \<Rightarrow> y)"

record sync_data =
  d_attributes :: attributes
  d_body :: string
  d_path :: string

text \<open>The object handed to \<open>$set\<close>: eight properties always, \<open>title\<close> and \<open>slug\<close> only
  when the title changed.\<close>

record modifier =
  m_content :: string
  m_htmlContent :: string
  m_sections :: "chapter_section list"
  m_excerpt :: string
  m_isFree :: bool
  m_order :: jsnum
  m_seoTitle :: string
  m_seoDescription :: string
  m_title :: "string option"
  m_slug :: "string option"

text \<open>\<open>$set\<close> of a modifier on a stored chapter. The sections handed over are cast to
  sub-documents with the ids of this write.\<close>

definition apply_set :: "(nat \<Rightarrow> objectId) \<Rightarrow> modifier \<Rightarrow> chapter_doc \<Rightarrow> chapter_doc" where
  "apply_set subId m c =
     c\<lparr>c_content := m_content m, c_htmlContent := m_htmlContent m,
       c_sections := cast_sections subId (m_sections m),
       c_excerpt := m_excerpt m, c_isFree := m_isFree m, c_order := m_order m,
       c_seoTitle := m_seoTitle m, c_seoDescription := m_seoDescription m,
       c_title := (case m_title m of None \<Rightarrow> c_title c | Some x \<Rightarrow> x),
       c_slug := (case m_slug m of None \<Rightarrow> c_slug c | Some x \<Rightarrow> x)\<rparr>"

text \<open>What \<open>syncContent\<close> handed to the store: the document it created, or the modifier
  of its update.\<close>

datatype sync_result = Created chapter_doc | Updated modifier

text \<open>
  \<open>newId\<close> and \<open>now\<close> are the id and the date a created document receives, \<open>subId\<close>
  the ids the store gives to the section sub-documents of this call. The excerpt is
  rendered by a bare call of marked after \<open>getSections\<close> has run, so under the renderer
  \<open>getSections\<close> installed, whose callback still pushes onto the array \<open>getSections\<close>
  returned: that array, which the document or modifier holds, is read after the call.
\<close>

definition syncContent ::
  "services \<Rightarrow> db \<Rightarrow> objectId \<Rightarrow> nat \<Rightarrow> (nat \<Rightarrow> objectId) \<Rightarrow> book \<Rightarrow> sync_data
     \<Rightarrow> sync_result \<times> db" where
  "syncContent sv d newId now subId book dat =
     (let title = a_title (d_attributes dat);
          excerpt = or_default [] (a_excerpt (d_attributes dat));
          isFree = or_default False (a_isFree (d_attributes dat));
          seoTitle = or_default [] (a_seoTitle (d_attributes dat));
          seoDescription = or_default [] (a_seoDescription (d_attributes dat));
          body = d_body dat;
          path = d_path dat;
          chapter = Chapter_findOne_path d (b_id book) path;
          order = chapter_order path;
          content = body;
          htmlContent = markdownToHtml sv content;
          sections = getSections sv content
      in case chapter of
           None \<Rightarrow>
             let slug = generateSlug sv (chapters d) title (b_id book);
                 rendered = marked_collecting sv (he_decode sv excerpt) sections;
                 doc = \<lparr>c_id = newId, c_bookId = b_id book, c_isFree = isFree,
                        c_githubFilePath = path, c_title = title, c_slug = slug,
                        c_excerpt = fst rendered, c_content = content,
                        c_htmlContent = htmlContent, c_createdAt = now, c_order = order,
                        c_seoTitle = seoTitle, c_seoDescription = seoDescription,
                        c_sections = cast_sections subId (snd rendered)\<rparr>
             in (Created doc, d\<lparr>chapters := chapters d @ [doc]\<rparr>)
         | Some ch \<Rightarrow>
             let rendered = marked_collecting sv (he_decode sv excerpt) sections;
                 modifier = \<lparr>m_content = content, m_htmlContent = htmlContent,
                             m_sections = snd rendered, m_excerpt = fst rendered,
                             m_isFree = isFree, m_order = order, m_seoTitle = seoTitle,
                             m_seoDescription = seoDescription, m_title = None, m_slug = None\<rparr>;
                 modifier' =
                   (if title \<noteq> c_title ch
                    then modifier\<lparr>m_title := Some title,
                                  m_slug := Some (generateSlug sv (chapters d) title (c_bookId ch))\<rparr>
                    else modifier)
             in (Updated modifier',
                 d\<lparr>chapters :=
                     update_first (\<lambda>c. c_id c = c_id ch) (apply_set subId modifier') (chapters d)\<rparr>))"

text \<open>A stored chapter whose section sub-documents have been given new ids: what a second
  write of the same sections leaves.\<close>

definition renew_section_ids :: "(nat \<Rightarrow> objectId) \<Rightarrow> chapter_doc \<Rightarrow> chapter_doc" where
  "renew_section_ids subId c = c\<lparr>c_sections := cast_sections subId (map entry_of (c_sections c))\<rparr>"

subsection \<open>Example documents\<close>

definition example_chapter :: chapter_doc where
  "example_chapter =
     \<lparr>c_id = ''c1'', c_bookId = ''b1'', c_isFree = False, c_githubFilePath = ''chapter-1.md'',
      c_title = ''Setup'', c_slug = ''setup'', c_excerpt = ''<p>intro</p>'',
      c_content = ''paid text'', c_htmlContent = ''<p>paid text</p>'', c_createdAt = 0,
      c_order = Num 2, c_seoTitle = [], c_seoDescription = [], c_sections = []\<rparr>"

definition example_book :: book where
  "example_book = \<lparr>b_id = ''b1'', b_slug = ''book''\<rparr>"

definition mark :: "objectId \<Rightarrow> objectId \<Rightarrow> bookmark" where
  "mark i c = \<lparr>bm_id = i, bm_chapterId = c, bm_hash = ''#h'', bm_text = ''some text''\<rparr>"

definition example_purchase :: "bookmark list \<Rightarrow> purchase" where
  "example_purchase bms = \<lparr>p_id = ''p1'', p_userId = ''u1'', p_bookId = ''b1'', p_bookmarks = bms\<rparr>"

definition example_db :: "bookmark list \<Rightarrow> db" where
  "example_db bms =
     \<lparr>chapters = [example_chapter], books = [example_book], purchases = [example_purchase bms]\<rparr>"

definition example_lookup :: "string \<Rightarrow> objectId option \<Rightarrow> book option" where
  "example_lookup slug userId = (if slug = ''book'' then Some example_book else None)"

text \<open>Stand-ins for the external services, and a payload whose title differs from the
  stored one.\<close>

definition example_services :: services where
  "example_services =
     \<lparr>he_decode = (\<lambda>s. s),
      marked_headings = (\<lambda>s. if s = ''## Install'' then [(''Install'', 2)] else []),
      marked_html = (\<lambda>s. ''<div>'' @ s @ ''</div>''),
      marked_plain = (\<lambda>s. ''<p>'' @ s @ ''</p>''),
      generateSlug = (\<lambda>docs title bookId. toLowerCase title)\<rparr>"

definition example_sub_id :: "string \<Rightarrow> nat \<Rightarrow> objectId" where
  "example_sub_id prefix i = prefix @ replicate i (CHR ''+'')"

definition example_data :: "string \<Rightarrow> sync_data" where
  "example_data path =
     \<lparr>d_attributes = \<lparr>a_title = ''Install'', a_excerpt = None, a_isFree = Some True,
                       a_seoTitle = None, a_seoDescription = None\<rparr>,
      d_body = ''## Install'', d_path = path\<rparr>"

section \<open>Properties\<close>

subsection \<open>The anchor\<close>

text \<open>The character classes and the letter case of the source are those the specification
  side lists: checked on every character.\<close>

lemma word_chars_iff: "(c \<in> set word_chars) = is_word c"
proof -
  have "\<forall>c. (c \<in> set word_chars) = is_word c" by code_simp
  then show ?thesis by blast
qed
lemma white_space_chars_iff: "(c \<in> set white_space_chars) = is_space c"
proof -
  have "\<forall>c. (c \<in> set white_space_chars) = is_space c" by code_simp
  then show ?thesis by blast
qed
lemma lower_char_table:
  "(case map_of (zip upper_letters lower_letters) c of None \<Rightarrow> c | Some l \<Rightarrow> l) = lower_char c"
proof -
  have "\<forall>c. (case map_of (zip upper_letters lower_letters) c of None \<Rightarrow> c | Some l \<Rightarrow> l) = lower_char c"
    by code_simp
  then show ?thesis by blast
qed

lemma strip_left_dropWhile: "strip_left s = dropWhile is_space s"
  by (induction s) (simp_all add: white_space_chars_iff)

lemma trimmed_trim: "trimmed s = trim s"
  by (simp add: trimmed_def trim_def strip_left_dropWhile)

lemma lower_cased_toLowerCase: "lower_cased s = toLowerCase s"
  by (simp add: lower_cased_def toLowerCase_def lower_char_table)

lemma runs_Cons:
  "runs (c # cs) =
     (case runs cs of
        [] \<Rightarrow> [(is_word c, [c])]
      | (w, r) # rs \<Rightarrow>
          if is_word c = w then (w, c # r) # rs else (is_word c, [c]) # (w, r) # rs)"
  by (simp add: word_chars_iff split: list.splits prod.splits)

declare runs.simps(2) [simp del]

declare runs_Cons [simp]

lemma runs_Cons_class: "\<exists>r rs. runs (c # cs) = (is_word c, r) # rs"
  by (cases "runs cs") (auto split: prod.splits)

lemma hyphenate_runs_Cons_word:
  assumes "is_word c"
  shows "hyphenate_runs (runs (c # cs)) = c # hyphenate_runs (runs cs)"
proof (cases cs)
  case Nil
  with assms show ?thesis by (simp add: hyphenate_runs_def)
next
  case (Cons d ds)
  obtain r rs where r: "runs (d # ds) = (is_word d, r) # rs"
    using runs_Cons_class by blast
  with assms Cons show ?thesis
    by (cases "is_word d") (simp_all add: hyphenate_runs_def)
qed

lemma hyphenate_runs_Cons_nonword:
  assumes "\<not> is_word c"
  shows "hyphenate_runs (runs (c # cs)) =
         CHR ''-'' # hyphenate_runs (runs (dropWhile (\<lambda>d. \<not> is_word d) cs))"
  using assms
proof (induction cs arbitrary: c)
  case Nil
  then show ?case by (simp add: hyphenate_runs_def)
next
  case (Cons d ds)
  obtain r rs where r: "runs (d # ds) = (is_word d, r) # rs"
    using runs_Cons_class by blast
  show ?case
  proof (cases "is_word d")
    case True
    with Cons.prems r show ?thesis by (simp add: hyphenate_runs_def)
  next
    case False
    have "hyphenate_runs (runs (c # d # ds)) = hyphenate_runs (runs (d # ds))"
      using Cons.prems False r by (simp add: hyphenate_runs_def)
    also have "\<dots> = CHR ''-'' # hyphenate_runs (runs (dropWhile (\<lambda>d. \<not> is_word d) ds))"
      using Cons.IH [OF False] .
    finally show ?thesis using False by simp
  qed
qed

lemma replace_nonword_runs: "replace_nonword s = hyphenate_runs (runs s)"
proof (induction s rule: replace_nonword.induct)
  case 1
  show ?case by (simp add: hyphenate_runs_def)
next
  case (2 c cs)
  show ?case
  proof (cases "is_word c")
    case True
    with 2 show ?thesis by (simp add: hyphenate_runs_Cons_word del: runs_Cons)
  next
    case False
    with 2 show ?thesis by (simp add: hyphenate_runs_Cons_nonword del: runs_Cons)
  qed
qed

lemma escapedText_of_spec: "escapedText_of t = anchor_spec t"
  by (simp add: escapedText_of_def anchor_spec_def replace_nonword_runs trimmed_trim
      lower_cased_toLowerCase)

text \<open>A heading that starts with a no-break space and ends with a space: both are trimmed,
  the inner run of a comma and a no-break space becomes one hyphen.\<close>

lemma escapedText_of_example:
  "escapedText_of ([CHR 0xA0] @ ''Intro,'' @ [CHR 0xA0] @ ''Part 2 '') = ''intro-part-2''"
  by code_simp

subsection \<open>Section extraction\<close>

lemma fold_sections_heading:
  "fold (\<lambda>(t, lvl). sections_heading t lvl) hs acc =
   acc @ map (\<lambda>t. \<lparr>s_text = t, s_level = 2, s_escapedText = escapedText_of t\<rparr>)
           (map fst (filter (\<lambda>(t, lvl). lvl = 2) hs))"
  by (induction hs arbitrary: acc) (auto simp: sections_heading_def)

text \<open>
  C5. \<open>getSections\<close> returns exactly one entry for each level-2 heading of the content, in
  document order (so the empty sequence when there is none); the entry carries the
  heading's text, level 2, and as \<open>escapedText\<close> the text trimmed, lower-cased, with every
  run of non-word characters replaced by a single hyphen.
\<close>

theorem getSections_level2:
  "getSections sv content =
   map (\<lambda>t. \<lparr>s_text = t, s_level = 2, s_escapedText = anchor_spec t\<rparr>) (level2_headings sv content)"
  by (simp add: getSections_def marked_collecting_def level2_headings_def fold_sections_heading
      escapedText_of_spec)

subsection \<open>The chapter order\<close>

lemma is_digit_not_space: "is_digit c \<Longrightarrow> \<not> is_space c"
  by (auto simp: is_digit_def is_space_def)

lemma is_digit_not_sign: "is_digit c \<Longrightarrow> c \<noteq> CHR ''-'' \<and> c \<noteq> CHR ''+''"
  by (auto simp: is_digit_def)

lemma number_of_nat_not_NaN: "number_of_nat n \<noteq> NaN"
  unfolding number_of_nat_def Let_def
  by (simp only: jsnum.distinct if_split [of "\<lambda>x. x \<noteq> NaN"] simp_thms)

lemma js_negate_NaN_iff: "js_negate x = NaN \<longleftrightarrow> x = NaN"
  by (cases x) (simp_all add: js_negate_def)

lemma js_plus_one_NaN_iff: "js_plus_one x = NaN \<longleftrightarrow> x = NaN"
  by (cases x) (simp_all add: js_plus_one_def number_of_int_def js_negate_NaN_iff number_of_nat_not_NaN)

lemma parseInt10_null: "parseInt10 ''null'' = NaN"
  by (simp add: parseInt10_def is_space_def is_digit_def)

lemma parseInt10_digits:
  assumes "ds \<noteq> []" and "\<forall>c\<in>set ds. is_digit c"
  shows "parseInt10 ds = number_of_nat (digits_value ds)"
proof -
  from assms obtain c cs where ds: "ds = c # cs" and c: "is_digit c"
    by (cases ds) auto
  have dw: "dropWhile is_space ds = ds"
    using ds c by (simp add: is_digit_not_space)
  have sg: "hd ds \<noteq> CHR ''-''" "hd ds \<noteq> CHR ''+''"
    using ds c is_digit_not_sign by auto
  have tw: "takeWhile is_digit ds = ds"
    using assms(2) by (simp add: takeWhile_eq_all_conv)
  show ?thesis
    by (simp add: parseInt10_def Let_def dw sg tw assms(1))
qed

lemma match_digits_None_iff: "match_digits path = None \<longleftrightarrow> (\<forall>c\<in>set path. \<not> is_digit c)"
  by (auto simp: match_digits_def Let_def dropWhile_eq_Nil_conv)

lemma match_digits_Some:
  assumes "match_digits path = Some ds"
  shows "ds \<noteq> [] \<and> (\<forall>c\<in>set ds. is_digit c)"
proof -
  let ?rest = "dropWhile (\<lambda>c. \<not> is_digit c) path"
  from assms have rest: "?rest \<noteq> []" and ds: "ds = takeWhile is_digit ?rest"
    by (auto simp: match_digits_def Let_def split: if_splits)
  from rest have "is_digit (hd ?rest)"
    using hd_dropWhile [of "\<lambda>c. \<not> is_digit c" path] by simp
  with rest have "ds \<noteq> []"
    unfolding ds by (cases ?rest) auto
  moreover have "\<forall>c\<in>set ds. is_digit c"
    unfolding ds by (auto dest: set_takeWhileD)
  ultimately show ?thesis by simp
qed

lemma match_digits_decomp:
  assumes "\<forall>c\<in>set pre. \<not> is_digit c" and "ds \<noteq> []" and "\<forall>c\<in>set ds. is_digit c"
    and "post = [] \<or> \<not> is_digit (hd post)"
  shows "match_digits (pre @ ds @ post) = Some ds"
proof -
  from assms(2,3) have hd: "is_digit (hd ds)" by (cases ds) auto
  have "dropWhile (\<lambda>c. \<not> is_digit c) (pre @ ds @ post) = ds @ post"
    using assms(1,2) hd by (cases ds) (simp_all add: dropWhile_append)
  moreover have "takeWhile is_digit (ds @ post) = ds"
    using assms(3,4) by (cases post) (simp_all add: takeWhile_append)
  ultimately show ?thesis
    using assms(2) by (simp add: match_digits_def)
qed

text \<open>
  C9. The match of the digit pattern is empty exactly when the path has no decimal digit,
  and the computed order is \<open>NaN\<close> exactly when the path is not "introduction.md" and
  has no decimal digit: the order is a number only for "introduction.md" or a path with
  at least one digit.
\<close>

theorem chapter_order_NaN_iff:
  "(match_digits path = None \<longleftrightarrow> (\<forall>c\<in>set path. \<not> is_digit c)) \<and>
   (chapter_order path = NaN \<longleftrightarrow> path \<noteq> ''introduction.md'' \<and> (\<forall>c\<in>set path. \<not> is_digit c))"
proof (cases "match_digits path")
  case None
  then show ?thesis
    using match_digits_None_iff [of path]
    by (simp add: chapter_order_def match_toString_def parseInt10_null js_plus_one_NaN_iff)
next
  case (Some ds)
  then have "parseInt10 ds \<noteq> NaN"
    using match_digits_Some [OF Some] by (simp add: parseInt10_digits number_of_nat_not_NaN)
  with Some show ?thesis
    using match_digits_None_iff [of path]
    by (simp add: chapter_order_def match_toString_def js_plus_one_NaN_iff)
qed

theorem chapter_order_NaN_iff_witness:
  "''readme.md'' \<noteq> ''introduction.md'' \<and> list_all (\<lambda>c. \<not> is_digit c) ''readme.md'' \<and>
   match_digits ''readme.md'' = None \<and> chapter_order ''readme.md'' = NaN"
  using chapter_order_NaN_iff [of "''readme.md''"] by (simp add: is_digit_def)

text \<open>
  C4, amended. The path "introduction.md" has order 1. For any other path that contains a
  decimal digit, with \<open>ds\<close> its first maximal run of digits (\<open>pre\<close> before it has no
  digit, \<open>post\<close> after it does not start with one) and the integer of \<open>ds\<close> below
  \<open>2^53\<close>, the order is that integer plus one; "chapter-03.md" has order 4.
\<close>

theorem chapter_order_first_integer:
  assumes "path \<noteq> ''introduction.md''"
    and "path = pre @ ds @ post"
    and "\<forall>c\<in>set pre. \<not> is_digit c"
    and "ds \<noteq> []" and "\<forall>c\<in>set ds. is_digit c"
    and "post = [] \<or> \<not> is_digit (hd post)"
    and "digits_value ds < 2 ^ 53"
  shows "chapter_order ''introduction.md'' = Num 1 \<and>
         chapter_order ''chapter-03.md'' = Num 4 \<and>
         chapter_order path = Num (int (digits_value ds) + 1)"
proof -
  have ex: "chapter_order ''chapter-03.md'' = Num 4"
    by (simp add: chapter_order_def match_digits_def is_digit_def match_toString_def
        parseInt10_def is_space_def digits_value_def digit_value_def number_of_nat_def
        js_plus_one_def number_of_int_def)
  have "match_digits path = Some ds"
    unfolding assms(2) using assms(3-6) by (rule match_digits_decomp)
  moreover have "parseInt10 ds = Num (int (digits_value ds))"
    using assms(4,5,7) by (simp add: parseInt10_digits number_of_nat_def)
  moreover have "number_of_int (int (digits_value ds) + 1) = Num (int (digits_value ds) + 1)"
  proof -
    have "nat (int (digits_value ds) + 1) = Suc (digits_value ds)" by simp
    moreover have "Suc (digits_value ds) \<le> 2 ^ 53" using assms(7) by simp
    ultimately show ?thesis
      by (simp add: number_of_int_def number_of_nat_def)
  qed
  ultimately have "chapter_order path = Num (int (digits_value ds) + 1)"
    using assms(1) by (simp add: chapter_order_def match_toString_def js_plus_one_def)
  then show ?thesis
    using ex by (simp add: chapter_order_def)
qed

text \<open>
  The claim C4 as stated fails at a path with no digit, where the order is \<open>NaN\<close>, and at
  a path whose first integer is \<open>2^53 + 1\<close>, where the order is \<open>2^53\<close> and not the integer
  plus one.
\<close>

lemma bit_length_example: "bit_length 9007199254740993 = 54"
  by simp

lemma number_of_nat_example: "number_of_nat 9007199254740993 = Num 9007199254740992"
  by (simp add: number_of_nat_def Let_def bit_length_example)

theorem chapter_order_counterexample:
  "chapter_order ''readme.md'' = NaN \<and>
   chapter_order ''chapter-9007199254740993.md'' = Num 9007199254740992"
proof -
  have "match_digits ''readme.md'' = None"
    by (simp add: match_digits_def is_digit_def)
  then have a: "chapter_order ''readme.md'' = NaN"
    by (simp add: chapter_order_def match_toString_def parseInt10_null js_plus_one_def)
  have m: "match_digits ''chapter-9007199254740993.md'' = Some ''9007199254740993''"
    by (simp add: match_digits_def is_digit_def)
  have "parseInt10 ''9007199254740993'' = number_of_nat (digits_value ''9007199254740993'')"
    by (rule parseInt10_digits) (simp_all add: is_digit_def)
  also have "digits_value ''9007199254740993'' = 9007199254740993"
    by (simp add: digits_value_def digit_value_def)
  finally have p: "parseInt10 ''9007199254740993'' = Num 9007199254740992"
    by (simp only: number_of_nat_example)
  have "js_plus_one (Num 9007199254740992) = number_of_nat 9007199254740993"
    by (simp add: js_plus_one_def number_of_int_def)
  then have b: "chapter_order ''chapter-9007199254740993.md'' = Num 9007199254740992"
    by (simp add: chapter_order_def m match_toString_def p number_of_nat_example)
  from a b show ?thesis by simp
qed

theorem chapter_order_first_integer_witness:
  "''chapter-03.md'' \<noteq> ''introduction.md'' \<and> digits_value ''03'' < 2 ^ 53 \<and>
   chapter_order (''chapter-'' @ ''03'' @ ''.md'') = Num (int (digits_value ''03'') + 1)"
proof -
  have "chapter_order ''introduction.md'' = Num 1 \<and>
        chapter_order ''chapter-03.md'' = Num 4 \<and>
        chapter_order (''chapter-'' @ ''03'' @ ''.md'') = Num (int (digits_value ''03'') + 1)"
    by (rule chapter_order_first_integer [where pre = "''chapter-''" and post = "''.md''"])
       (simp_all add: is_digit_def digits_value_def digit_value_def)
  then show ?thesis by (simp add: digits_value_def digit_value_def)
qed

subsection \<open>Lookups and updates of the store\<close>

lemma update_first_distinct:
  "distinct (map k xs) \<Longrightarrow>
   update_first (\<lambda>x. k x = v) f xs = map (\<lambda>x. if k x = v then f x else x) xs"
proof (induction xs)
  case Nil
  show ?case by simp
next
  case (Cons x xs)
  show ?case
  proof (cases "k x = v")
    case True
    with Cons.prems have "\<forall>y\<in>set xs. k y \<noteq> v" by (auto simp: image_iff)
    then have "map (\<lambda>x. if k x = v then f x else x) xs = xs"
      by (simp add: map_idI)
    with True show ?thesis by simp
  next
    case False
    with Cons show ?thesis by simp
  qed
qed

lemma find_map_same:
  "(\<And>x. P (g x) = P x) \<Longrightarrow> find P (map g xs) = map_option g (find P xs)"
  by (induction xs) simp_all

lemma find_in_set: "find P xs = Some x \<Longrightarrow> x \<in> set xs \<and> P x"
  by (auto simp: find_Some_iff)

lemma find_distinct_key:
  "distinct (map k xs) \<Longrightarrow> x \<in> set xs \<Longrightarrow> find (\<lambda>y. k y = k x) xs = Some x"
  by (induction xs) (auto simp: image_iff)

subsection \<open>addBookmark: the bookmarks of other chapters\<close>

lemma pull_keeps_other_chapters:
  assumes "distinct (map bm_id bms)" and "k < length bms" and "bm_chapterId (bms ! k) = c"
  shows "filter (\<lambda>b. bm_chapterId b \<noteq> c) (pull (bm_id (bms ! k)) bms) =
         filter (\<lambda>b. bm_chapterId b \<noteq> c) bms"
proof -
  have inj: "inj_on bm_id (set bms)"
    using assms(1) by (simp add: distinct_map)
  have "\<And>b. b \<in> set bms \<Longrightarrow> bm_chapterId b \<noteq> c \<Longrightarrow> bm_id b \<noteq> bm_id (bms ! k)"
  proof
    fix b assume b: "b \<in> set bms" "bm_chapterId b \<noteq> c" "bm_id b = bm_id (bms ! k)"
    from assms(2) have "bms ! k \<in> set bms" by simp
    with inj b(1,3) have "b = bms ! k" by (auto dest: inj_onD)
    with b(2) assms(3) show False by simp
  qed
  then show ?thesis
    unfolding pull_def filter_filter by (intro filter_cong) auto
qed

lemma pull_distinct: "distinct (map bm_id bms) \<Longrightarrow> distinct (map bm_id (pull i bms))"
  by (simp add: pull_def distinct_map_filter)

lemma forEach_pull_keeps_other_chapters:
  "distinct (map bm_id bms) \<Longrightarrow>
   filter (\<lambda>b. bm_chapterId b \<noteq> c) (forEach_pull c len k bms) =
   filter (\<lambda>b. bm_chapterId b \<noteq> c) bms"
proof (induction c len k bms rule: forEach_pull.induct)
  case (1 c len k bms)
  show ?case
  proof (cases "k < len")
    case False
    then show ?thesis by (subst forEach_pull.simps) simp
  next
    case klen: True
    show ?thesis
    proof (cases "k < length bms")
      case False
      with klen 1 show ?thesis by (subst forEach_pull.simps) simp
    next
      case kin: True
      show ?thesis
      proof (cases "bm_chapterId (bms ! k) = c")
        case True
        have "filter (\<lambda>b. bm_chapterId b \<noteq> c) (forEach_pull c len k bms) =
              filter (\<lambda>b. bm_chapterId b \<noteq> c)
                (forEach_pull c len (Suc k) (pull (bm_id (bms ! k)) bms))"
          using klen kin True by (subst forEach_pull.simps) simp
        also have "\<dots> = filter (\<lambda>b. bm_chapterId b \<noteq> c) (pull (bm_id (bms ! k)) bms)"
          using "1.IH"(1) [OF klen kin True] "1.prems" by (simp add: pull_distinct)
        also have "\<dots> = filter (\<lambda>b. bm_chapterId b \<noteq> c) bms"
          using "1.prems" kin True by (rule pull_keeps_other_chapters)
        finally show ?thesis .
      next
        case False
        with klen kin 1 show ?thesis by (subst forEach_pull.simps) simp
      qed
    qed
  qed
qed

lemma update_first_frame:
  "(\<And>x. g (f x) = g x) \<Longrightarrow> map g (update_first P f xs) = map g xs"
  by (induction xs) auto

lemma addBookmark_Inr:
  assumes "fst (addBookmark d newId chapterId hash t userId) = Inr p'"
  shows "\<exists>uid ch bk p.
           userId = Some uid \<and> uid \<noteq> [] \<and> Chapter_findById d chapterId = Some ch \<and>
           Book_findById d (c_bookId ch) = Some bk \<and>
           Purchase_findOne d uid (b_id bk) = Some p \<and>
           p' = p\<lparr>p_bookmarks := replace_bookmark chapterId newId hash t (p_bookmarks p)\<rparr> \<and>
           addBookmark d newId chapterId hash t userId = (Inr p', Purchase_save d p')"
  using assms unfolding addBookmark_def
  by (auto simp: Let_def split: option.splits if_splits)

lemma Purchase_findOne_in: "Purchase_findOne d u b = Some p \<Longrightarrow> p \<in> set (purchases d)"
  unfolding Purchase_findOne_def by (auto simp: find_Some_iff)

text \<open>
  C10. When \<open>addBookmark\<close> succeeds on a store whose bookmarks have distinct ids within
  each purchase (the store gives every sub-document its own id), the purchase returned is
  one of the stored purchases with only its bookmark list changed, and its bookmarks for
  chapters other than the given one are the same as before, in the same order. The store
  afterwards is the store with that purchase saved: chapters and books are unchanged,
  and every stored purchase keeps all its fields other than the bookmark list.
\<close>

theorem addBookmark_keeps_other_bookmarks:
  assumes "fst (addBookmark d newId chapterId hash t userId) = Inr p'"
    and "\<forall>p\<in>set (purchases d). distinct (map bm_id (p_bookmarks p))"
  shows "(\<exists>p\<in>set (purchases d).
           filter (\<lambda>b. bm_chapterId b \<noteq> chapterId) (p_bookmarks p') =
           filter (\<lambda>b. bm_chapterId b \<noteq> chapterId) (p_bookmarks p) \<and>
           p' = p\<lparr>p_bookmarks := p_bookmarks p'\<rparr>) \<and>
         snd (addBookmark d newId chapterId hash t userId) = Purchase_save d p' \<and>
         chapters (Purchase_save d p') = chapters d \<and>
         books (Purchase_save d p') = books d \<and>
         map (\<lambda>q. q\<lparr>p_bookmarks := []\<rparr>) (purchases (Purchase_save d p')) =
         map (\<lambda>q. q\<lparr>p_bookmarks := []\<rparr>) (purchases d)"
proof -
  from addBookmark_Inr [OF assms(1)] obtain uid and bk :: book and p where
    p: "Purchase_findOne d uid (b_id bk) = Some p" and
    p': "p' = p\<lparr>p_bookmarks := replace_bookmark chapterId newId hash t (p_bookmarks p)\<rparr>" and
    r: "addBookmark d newId chapterId hash t userId = (Inr p', Purchase_save d p')"
    by blast
  from p have pin: "p \<in> set (purchases d)" by (rule Purchase_findOne_in)
  with assms(2) have dist: "distinct (map bm_id (p_bookmarks p))" by blast
  have "filter (\<lambda>b. bm_chapterId b \<noteq> chapterId) (p_bookmarks p') =
        filter (\<lambda>b. bm_chapterId b \<noteq> chapterId) (p_bookmarks p)"
    unfolding p' replace_bookmark_def
    using forEach_pull_keeps_other_chapters [OF dist] by simp
  moreover have "p' = p\<lparr>p_bookmarks := p_bookmarks p'\<rparr>"
    unfolding p' by simp
  ultimately have a: "\<exists>p\<in>set (purchases d).
           filter (\<lambda>b. bm_chapterId b \<noteq> chapterId) (p_bookmarks p') =
           filter (\<lambda>b. bm_chapterId b \<noteq> chapterId) (p_bookmarks p) \<and>
           p' = p\<lparr>p_bookmarks := p_bookmarks p'\<rparr>"
    using pin by blast
  have b: "snd (addBookmark d newId chapterId hash t userId) = Purchase_save d p'"
    unfolding r by simp
  have c: "chapters (Purchase_save d p') = chapters d" "books (Purchase_save d p') = books d"
    by (simp_all add: Purchase_save_def)
  have e: "map (\<lambda>q. q\<lparr>p_bookmarks := []\<rparr>) (purchases (Purchase_save d p')) =
         map (\<lambda>q. q\<lparr>p_bookmarks := []\<rparr>) (purchases d)"
    by (simp add: Purchase_save_def update_first_frame)
  from a b c e show ?thesis by blast
qed

theorem addBookmark_keeps_other_bookmarks_witness:
  "fst (addBookmark (example_db [mark ''m1'' ''c1'', mark ''m2'' ''c2'']) ''m3'' ''c1'' ''#x''
          ''new text'' (Some ''u1'')) =
     Inr (example_purchase [mark ''m2'' ''c2'', \<lparr>bm_id = ''m3'', bm_chapterId = ''c1'',
            bm_hash = ''#x'', bm_text = ''new text''\<rparr>]) \<and>
   list_all (\<lambda>p. distinct (map bm_id (p_bookmarks p)))
     (purchases (example_db [mark ''m1'' ''c1'', mark ''m2'' ''c2''])) \<and>
   (\<exists>p\<in>set (purchases (example_db [mark ''m1'' ''c1'', mark ''m2'' ''c2''])).
      filter (\<lambda>b. bm_chapterId b \<noteq> ''c1'')
        (p_bookmarks (example_purchase [mark ''m2'' ''c2'', \<lparr>bm_id = ''m3'',
           bm_chapterId = ''c1'', bm_hash = ''#x'', bm_text = ''new text''\<rparr>])) =
      filter (\<lambda>b. bm_chapterId b \<noteq> ''c1'') (p_bookmarks p))"
proof -
  have h1: "fst (addBookmark (example_db [mark ''m1'' ''c1'', mark ''m2'' ''c2'']) ''m3'' ''c1''
               ''#x'' ''new text'' (Some ''u1'')) =
     Inr (example_purchase [mark ''m2'' ''c2'', \<lparr>bm_id = ''m3'', bm_chapterId = ''c1'',
            bm_hash = ''#x'', bm_text = ''new text''\<rparr>])"
    by code_simp
  have h2: "\<forall>p\<in>set (purchases (example_db [mark ''m1'' ''c1'', mark ''m2'' ''c2''])).
      distinct (map bm_id (p_bookmarks p))"
    by (simp add: example_db_def example_purchase_def mark_def)
  from addBookmark_keeps_other_bookmarks [OF h1 h2] h1 h2 show ?thesis
    unfolding list_all_iff by blast
qed

text \<open>
  C2 fails on the code. A purchase that holds two adjacent bookmarks of chapter c1 keeps
  the second of them: the callback pulls the first while \<open>forEach\<close> is at index 0, the
  second moves to index 0, and the visit goes on at index 1. After the push the purchase
  has two bookmarks of c1.
\<close>

theorem addBookmark_leaves_duplicate:
  "fst (addBookmark (example_db [mark ''m1'' ''c1'', mark ''m2'' ''c1'']) ''m3'' ''c1'' ''#x''
          ''new text'' (Some ''u1'')) =
     Inr (example_purchase [mark ''m2'' ''c1'', \<lparr>bm_id = ''m3'', bm_chapterId = ''c1'',
            bm_hash = ''#x'', bm_text = ''new text''\<rparr>])"
  by code_simp

subsection \<open>addBookmark: one bookmark per chapter, when there was at most one\<close>

lemma forEach_pull_no_match:
  "\<forall>b\<in>set bms. bm_chapterId b \<noteq> c \<Longrightarrow> forEach_pull c len k bms = bms"
proof (induction c len k bms rule: forEach_pull.induct)
  case (1 c len k bms)
  show ?case
  proof (cases "k < len \<and> k < length bms")
    case True
    with "1.prems" have "bm_chapterId (bms ! k) \<noteq> c" by simp
    with True 1 show ?thesis by (subst forEach_pull.simps) simp
  next
    case False
    with 1 show ?thesis by (subst forEach_pull.simps) auto
  qed
qed

lemma filter_at_most_one:
  "length (filter P xs) \<le> 1 \<Longrightarrow> x \<in> set xs \<Longrightarrow> y \<in> set xs \<Longrightarrow> P x \<Longrightarrow> P y \<Longrightarrow> x = y"
proof (induction xs)
  case Nil
  then show ?case by simp
next
  case (Cons a xs)
  show ?case
  proof (cases "P a")
    case True
    with Cons.prems(1) have "filter P xs = []" by simp
    then have "\<forall>z\<in>set xs. \<not> P z" by (simp add: filter_empty_conv)
    with Cons.prems show ?thesis by auto
  next
    case False
    with Cons show ?thesis by auto
  qed
qed

lemma pull_the_only_match:
  assumes "distinct (map bm_id bms)" and "length (filter (\<lambda>b. bm_chapterId b = c) bms) \<le> 1"
    and "k < length bms" and "bm_chapterId (bms ! k) = c"
  shows "pull (bm_id (bms ! k)) bms = filter (\<lambda>b. bm_chapterId b \<noteq> c) bms"
proof -
  have inj: "inj_on bm_id (set bms)"
    using assms(1) by (simp add: distinct_map)
  from assms(3) have kin: "bms ! k \<in> set bms" by simp
  have "\<And>b. b \<in> set bms \<Longrightarrow> (bm_id b \<noteq> bm_id (bms ! k)) = (bm_chapterId b \<noteq> c)"
  proof -
    fix b assume b: "b \<in> set bms"
    show "(bm_id b \<noteq> bm_id (bms ! k)) = (bm_chapterId b \<noteq> c)"
    proof (cases "bm_chapterId b = c")
      case True
      then have "b = bms ! k"
        using filter_at_most_one [OF assms(2) b kin] assms(4) by simp
      with True show ?thesis by simp
    next
      case False
      with assms(4) have "b \<noteq> bms ! k" by auto
      with inj b kin have "bm_id b \<noteq> bm_id (bms ! k)" by (auto dest: inj_onD)
      with False show ?thesis by simp
    qed
  qed
  then show ?thesis
    unfolding pull_def by (intro filter_cong) auto
qed

lemma forEach_pull_at_most_one:
  assumes "distinct (map bm_id bms)" and "length (filter (\<lambda>b. bm_chapterId b = c) bms) \<le> 1"
    and "\<forall>i<k. i < length bms \<longrightarrow> bm_chapterId (bms ! i) \<noteq> c" and "length bms \<le> len"
  shows "forEach_pull c len k bms = filter (\<lambda>b. bm_chapterId b \<noteq> c) bms"
  using assms
proof (induction c len k bms rule: forEach_pull.induct)
  case (1 c len k bms)
  show ?case
  proof (cases "k < length bms")
    case kin: True
    with "1.prems"(4) have klen: "k < len" by simp
    show ?thesis
    proof (cases "bm_chapterId (bms ! k) = c")
      case True
      have pl: "pull (bm_id (bms ! k)) bms = filter (\<lambda>b. bm_chapterId b \<noteq> c) bms"
        using "1.prems"(1,2) kin True by (rule pull_the_only_match)
      have "forEach_pull c len k bms = forEach_pull c len (Suc k) (pull (bm_id (bms ! k)) bms)"
        using klen kin True by (subst forEach_pull.simps) simp
      also have "\<dots> = pull (bm_id (bms ! k)) bms"
        unfolding pl by (rule forEach_pull_no_match) simp
      finally show ?thesis using pl by simp
    next
      case False
      have "\<forall>i<Suc k. i < length bms \<longrightarrow> bm_chapterId (bms ! i) \<noteq> c"
        using "1.prems"(3) False by (auto simp: less_Suc_eq)
      then have "forEach_pull c len (Suc k) bms = filter (\<lambda>b. bm_chapterId b \<noteq> c) bms"
        using "1.IH"(2) [OF klen kin False] "1.prems"(1,2,4) by blast
      then show ?thesis
        using klen kin False by (subst forEach_pull.simps) simp
    qed
  next
    case False
    have none: "\<forall>b\<in>set bms. bm_chapterId b \<noteq> c"
    proof
      fix b assume "b \<in> set bms"
      then obtain i where i: "i < length bms" "bms ! i = b"
        by (auto simp: in_set_conv_nth)
      with False have "i < k" by simp
      with i "1.prems"(3) show "bm_chapterId b \<noteq> c" by blast
    qed
    then have "filter (\<lambda>b. bm_chapterId b \<noteq> c) bms = bms" by simp
    with forEach_pull_no_match [OF none] show ?thesis by simp
  qed
qed

lemma replace_bookmark_at_most_one:
  assumes "distinct (map bm_id bms)" and "length (filter (\<lambda>b. bm_chapterId b = c) bms) \<le> 1"
  shows "replace_bookmark c newId hash t bms =
         filter (\<lambda>b. bm_chapterId b \<noteq> c) bms
           @ [\<lparr>bm_id = newId, bm_chapterId = c, bm_hash = hash, bm_text = t\<rparr>]"
    and "length (filter (\<lambda>b. bm_chapterId b = c) (replace_bookmark c newId hash t bms)) = 1"
proof -
  show a: "replace_bookmark c newId hash t bms =
         filter (\<lambda>b. bm_chapterId b \<noteq> c) bms
           @ [\<lparr>bm_id = newId, bm_chapterId = c, bm_hash = hash, bm_text = t\<rparr>]"
    unfolding replace_bookmark_def
    using forEach_pull_at_most_one [OF assms, of 0 "length bms"] by simp
  show "length (filter (\<lambda>b. bm_chapterId b = c) (replace_bookmark c newId hash t bms)) = 1"
    unfolding a by (simp add: filter_empty_conv [THEN iffD2])
qed

subsection \<open>addBookmark: errors\<close>

lemma addBookmark_no_user:
  "\<not> truthy_id userId \<Longrightarrow>
   addBookmark d newId chapterId hash t userId = (Inl (Error ''User is required''), d)"
  by (auto simp: addBookmark_def truthy_id_def split: option.splits)

lemma addBookmark_no_chapter:
  "truthy_id userId \<Longrightarrow> Chapter_findById d chapterId = None \<Longrightarrow>
   addBookmark d newId chapterId hash t userId = (Inl (Error ''Chapter not found''), d)"
  by (auto simp: addBookmark_def truthy_id_def split: option.splits)

lemma addBookmark_no_book:
  "truthy_id userId \<Longrightarrow> Chapter_findById d chapterId = Some ch \<Longrightarrow>
   Book_findById d (c_bookId ch) = None \<Longrightarrow>
   addBookmark d newId chapterId hash t userId = (Inl (Error ''Book not found''), d)"
  by (auto simp: addBookmark_def truthy_id_def split: option.splits)

lemma addBookmark_no_purchase:
  "userId = Some uid \<Longrightarrow> uid \<noteq> [] \<Longrightarrow> Chapter_findById d chapterId = Some ch \<Longrightarrow>
   Book_findById d (c_bookId ch) = Some bk \<Longrightarrow> Purchase_findOne d uid (b_id bk) = None \<Longrightarrow>
   addBookmark d newId chapterId hash t userId =
     (Inl (Error ''You have not bought this book.''), d)"
  by (simp add: addBookmark_def)

lemma addBookmark_saved:
  "userId = Some uid \<Longrightarrow> uid \<noteq> [] \<Longrightarrow> Chapter_findById d chapterId = Some ch \<Longrightarrow>
   Book_findById d (c_bookId ch) = Some bk \<Longrightarrow> Purchase_findOne d uid (b_id bk) = Some p \<Longrightarrow>
   addBookmark d newId chapterId hash t userId =
     (Inr (p\<lparr>p_bookmarks := replace_bookmark chapterId newId hash t (p_bookmarks p)\<rparr>),
      Purchase_save d (p\<lparr>p_bookmarks := replace_bookmark chapterId newId hash t (p_bookmarks p)\<rparr>))"
  by (simp add: addBookmark_def Let_def)

lemma forEach_pull_subset: "set (forEach_pull c len k bms) \<subseteq> set bms"
proof (induction c len k bms rule: forEach_pull.induct)
  case (1 c len k bms)
  show ?case
  proof (cases "k < len \<and> k < length bms \<and> bm_chapterId (bms ! k) = c")
    case True
    then have "forEach_pull c len k bms = forEach_pull c len (Suc k) (pull (bm_id (bms ! k)) bms)"
      by (subst forEach_pull.simps) simp
    moreover have "set (forEach_pull c len (Suc k) (pull (bm_id (bms ! k)) bms)) \<subseteq>
                   set (pull (bm_id (bms ! k)) bms)"
      using "1.IH"(1) True by simp
    moreover have "set (pull (bm_id (bms ! k)) bms) \<subseteq> set bms"
      by (auto simp: pull_def)
    ultimately show ?thesis by simp
  next
    case False
    with "1.IH"(2,3) show ?thesis
      by (subst forEach_pull.simps) auto
  qed
qed

lemma update_first_length: "length (update_first P f xs) = length xs"
  by (induction xs) auto

text \<open>After the save, the purchase of this user and book in the store is the saved one.\<close>

lemma Purchase_save_found:
  assumes "Purchase_findOne d uid bid = Some p" and "distinct (map p_id (purchases d))"
  shows "Purchase_findOne (Purchase_save d (p\<lparr>p_bookmarks := bms\<rparr>)) uid bid =
           Some (p\<lparr>p_bookmarks := bms\<rparr>)"
proof -
  let ?g = "\<lambda>q. if p_id q = p_id p then q\<lparr>p_bookmarks := bms\<rparr> else q"
  have "purchases (Purchase_save d (p\<lparr>p_bookmarks := bms\<rparr>)) = map ?g (purchases d)"
    using assms(2) by (simp add: Purchase_save_def update_first_distinct)
  then have "Purchase_findOne (Purchase_save d (p\<lparr>p_bookmarks := bms\<rparr>)) uid bid =
             map_option ?g (Purchase_findOne d uid bid)"
    unfolding Purchase_findOne_def by (simp add: find_map_same)
  with assms(1) show ?thesis by simp
qed

text \<open>
  C7. \<open>addBookmark\<close> raises exactly when the user id is missing, or no chapter has the
  given id, or the chapter's book does not exist, or the user has no purchase of that
  book, each with its own message; whenever it raises the store is unchanged. Otherwise
  it succeeds: it returns the purchase of this user and book with the same id, user and
  book, whose bookmark list ends with the new bookmark after bookmarks that were there
  before; chapters and books are unchanged and no purchase is added or removed; and
  (purchase ids being distinct) the purchase found in the store for this user and book
  afterwards is the returned one.
\<close>

theorem addBookmark_raises_iff:
  shows "(isl (fst (addBookmark d newId chapterId hash t userId)) \<longleftrightarrow>
      \<not> truthy_id userId \<or> Chapter_findById d chapterId = None \<or>
      (\<exists>ch. Chapter_findById d chapterId = Some ch \<and> Book_findById d (c_bookId ch) = None) \<or>
      (\<exists>uid ch bk. userId = Some uid \<and> Chapter_findById d chapterId = Some ch \<and>
         Book_findById d (c_bookId ch) = Some bk \<and> Purchase_findOne d uid (b_id bk) = None)) \<and>
   (fst (addBookmark d newId chapterId hash t userId) = Inl (Error ''User is required'') \<longleftrightarrow>
      \<not> truthy_id userId) \<and>
   (fst (addBookmark d newId chapterId hash t userId) = Inl (Error ''Chapter not found'') \<longleftrightarrow>
      truthy_id userId \<and> Chapter_findById d chapterId = None) \<and>
   (fst (addBookmark d newId chapterId hash t userId) = Inl (Error ''Book not found'') \<longleftrightarrow>
      truthy_id userId \<and>
      (\<exists>ch. Chapter_findById d chapterId = Some ch \<and> Book_findById d (c_bookId ch) = None)) \<and>
   (fst (addBookmark d newId chapterId hash t userId) =
      Inl (Error ''You have not bought this book.'') \<longleftrightarrow>
      truthy_id userId \<and>
      (\<exists>uid ch bk. userId = Some uid \<and> Chapter_findById d chapterId = Some ch \<and>
         Book_findById d (c_bookId ch) = Some bk \<and> Purchase_findOne d uid (b_id bk) = None)) \<and>
   (isl (fst (addBookmark d newId chapterId hash t userId)) \<longrightarrow>
      snd (addBookmark d newId chapterId hash t userId) = d) \<and>
   (\<not> isl (fst (addBookmark d newId chapterId hash t userId)) \<longrightarrow>
      (\<exists>uid ch bk p p'.
         userId = Some uid \<and> Chapter_findById d chapterId = Some ch \<and>
         Book_findById d (c_bookId ch) = Some bk \<and> Purchase_findOne d uid (b_id bk) = Some p \<and>
         fst (addBookmark d newId chapterId hash t userId) = Inr p' \<and>
         p_id p' = p_id p \<and> p_userId p' = p_userId p \<and> p_bookId p' = p_bookId p \<and>
         p_bookmarks p' \<noteq> [] \<and>
         last (p_bookmarks p') =
           \<lparr>bm_id = newId, bm_chapterId = chapterId, bm_hash = hash, bm_text = t\<rparr> \<and>
         set (butlast (p_bookmarks p')) \<subseteq> set (p_bookmarks p) \<and>
         chapters (snd (addBookmark d newId chapterId hash t userId)) = chapters d \<and>
         books (snd (addBookmark d newId chapterId hash t userId)) = books d \<and>
         length (purchases (snd (addBookmark d newId chapterId hash t userId))) =
           length (purchases d) \<and>
         (distinct (map p_id (purchases d)) \<longrightarrow>
            Purchase_findOne (snd (addBookmark d newId chapterId hash t userId)) uid (b_id bk) =
              Some p' \<and>
            p' \<in> set (purchases (snd (addBookmark d newId chapterId hash t userId))))))"
    (is "?c1 \<and> ?c2 \<and> ?c3 \<and> ?c4 \<and> ?c5 \<and> ?c6 \<and> ?c7")
proof (cases "truthy_id userId")
  case False
  then show ?thesis by (simp add: addBookmark_no_user)
next
  case True
  then obtain uid where uid: "userId = Some uid" "uid \<noteq> []"
    by (auto simp: truthy_id_def split: option.splits)
  show ?thesis
  proof (cases "Chapter_findById d chapterId")
    case None
    with True show ?thesis by (simp add: addBookmark_no_chapter)
  next
    case (Some ch)
    show ?thesis
    proof (cases "Book_findById d (c_bookId ch)")
      case None
      with True Some show ?thesis by (simp add: addBookmark_no_book)
    next
      case bk: (Some bk)
      show ?thesis
      proof (cases "Purchase_findOne d uid (b_id bk)")
        case None
        with True uid Some bk show ?thesis by (simp add: addBookmark_no_purchase)
      next
        case p: (Some p)
        define p' where
          "p' = p\<lparr>p_bookmarks := replace_bookmark chapterId newId hash t (p_bookmarks p)\<rparr>"
        have r: "addBookmark d newId chapterId hash t userId = (Inr p', Purchase_save d p')"
          unfolding p'_def using uid Some bk p by (rule addBookmark_saved)
        have keys: "p_id p' = p_id p" "p_userId p' = p_userId p" "p_bookId p' = p_bookId p"
          by (simp_all add: p'_def)
        have marks: "p_bookmarks p' \<noteq> []"
          "last (p_bookmarks p') =
             \<lparr>bm_id = newId, bm_chapterId = chapterId, bm_hash = hash, bm_text = t\<rparr>"
          "set (butlast (p_bookmarks p')) \<subseteq> set (p_bookmarks p)"
          using forEach_pull_subset [of chapterId "length (p_bookmarks p)" 0 "p_bookmarks p"]
          by (simp_all add: p'_def replace_bookmark_def)
        have frame: "chapters (Purchase_save d p') = chapters d"
          "books (Purchase_save d p') = books d"
          "length (purchases (Purchase_save d p')) = length (purchases d)"
          by (simp_all add: Purchase_save_def update_first_length)
        have stored: "Purchase_findOne (Purchase_save d p') uid (b_id bk) = Some p' \<and>
                      p' \<in> set (purchases (Purchase_save d p'))"
          if "distinct (map p_id (purchases d))"
          using Purchase_save_found [OF p that, of "p_bookmarks p'"] keys
          by (simp add: p'_def Purchase_findOne_in)
        have ok: "\<not> isl (fst (addBookmark d newId chapterId hash t userId))"
          by (simp add: r)
        have errs: "fst (addBookmark d newId chapterId hash t userId) \<noteq> Inl e" for e
          by (simp add: r)
        have succ: "\<exists>uid ch bk p p'.
         userId = Some uid \<and> Chapter_findById d chapterId = Some ch \<and>
         Book_findById d (c_bookId ch) = Some bk \<and> Purchase_findOne d uid (b_id bk) = Some p \<and>
         fst (addBookmark d newId chapterId hash t userId) = Inr p' \<and>
         p_id p' = p_id p \<and> p_userId p' = p_userId p \<and> p_bookId p' = p_bookId p \<and>
         p_bookmarks p' \<noteq> [] \<and>
         last (p_bookmarks p') =
           \<lparr>bm_id = newId, bm_chapterId = chapterId, bm_hash = hash, bm_text = t\<rparr> \<and>
         set (butlast (p_bookmarks p')) \<subseteq> set (p_bookmarks p) \<and>
         chapters (snd (addBookmark d newId chapterId hash t userId)) = chapters d \<and>
         books (snd (addBookmark d newId chapterId hash t userId)) = books d \<and>
         length (purchases (snd (addBookmark d newId chapterId hash t userId))) =
           length (purchases d) \<and>
         (distinct (map p_id (purchases d)) \<longrightarrow>
            Purchase_findOne (snd (addBookmark d newId chapterId hash t userId)) uid (b_id bk) =
              Some p' \<and>
            p' \<in> set (purchases (snd (addBookmark d newId chapterId hash t userId))))"
          unfolding r fst_conv snd_conv
          using uid(1) Some bk p keys marks frame stored by blast
        have c1: ?c1 using True uid Some bk p ok by auto
        have c2: ?c2 using True errs by simp
        have c3: ?c3 using True Some errs by simp
        have c4: ?c4 using True Some bk errs by simp
        have c5: ?c5 using True uid Some bk p errs by auto
        have c6: ?c6 using ok by simp
        have c7: ?c7 using succ by (rule impI)
        from c1 c2 c3 c4 c5 c6 c7 show ?thesis
          by (intro conjI)
      qed
    qed
  qed
qed

theorem addBookmark_raises_iff_witness:
  "\<not> isl (fst (addBookmark (example_db [mark ''m1'' ''c1'']) ''m3'' ''c1'' ''#x'' ''new text''
             (Some ''u1''))) \<and>
   distinct (map p_id (purchases (example_db [mark ''m1'' ''c1'']))) \<and>
   (\<exists>p'. fst (addBookmark (example_db [mark ''m1'' ''c1'']) ''m3'' ''c1'' ''#x'' ''new text''
              (Some ''u1'')) = Inr p' \<and>
         last (p_bookmarks p') =
           \<lparr>bm_id = ''m3'', bm_chapterId = ''c1'', bm_hash = ''#x'', bm_text = ''new text''\<rparr> \<and>
         Purchase_findOne
           (snd (addBookmark (example_db [mark ''m1'' ''c1'']) ''m3'' ''c1'' ''#x'' ''new text''
                   (Some ''u1''))) ''u1'' ''b1'' = Some p') \<and>
   isl (fst (addBookmark (example_db [mark ''m1'' ''c1'']) ''m3'' ''c1'' ''#x'' ''new text'' None)) \<and>
   snd (addBookmark (example_db [mark ''m1'' ''c1'']) ''m3'' ''c1'' ''#x'' ''new text'' None) =
     example_db [mark ''m1'' ''c1'']"
proof -
  let ?d = "example_db [mark ''m1'' ''c1'']"
  have ok: "\<not> isl (fst (addBookmark ?d ''m3'' ''c1'' ''#x'' ''new text'' (Some ''u1'')))"
    by code_simp
  have err: "isl (fst (addBookmark ?d ''m3'' ''c1'' ''#x'' ''new text'' None))"
    by code_simp
  have dist: "distinct (map p_id (purchases ?d))"
    by (simp add: example_db_def)
  have ch: "Chapter_findById ?d ''c1'' = Some example_chapter"
    by (simp add: Chapter_findById_def example_db_def example_chapter_def)
  have bk: "Book_findById ?d (c_bookId example_chapter) = Some example_book"
    by (simp add: Book_findById_def example_db_def example_chapter_def example_book_def)
  from addBookmark_raises_iff [of ?d "''m3''" "''c1''" "''#x''" "''new text''" "Some ''u1''",
      THEN conjunct2, THEN conjunct2, THEN conjunct2, THEN conjunct2, THEN conjunct2,
      THEN conjunct2, THEN mp, OF ok]
  obtain uid and ch' :: chapter_doc and bk' :: book and p p' where
    a: "Some ''u1'' = Some uid" "Chapter_findById ?d ''c1'' = Some ch'"
      "Book_findById ?d (c_bookId ch') = Some bk'"
      "fst (addBookmark ?d ''m3'' ''c1'' ''#x'' ''new text'' (Some ''u1'')) = Inr p'"
      "last (p_bookmarks p') =
         \<lparr>bm_id = ''m3'', bm_chapterId = ''c1'', bm_hash = ''#x'', bm_text = ''new text''\<rparr>"
      "distinct (map p_id (purchases ?d)) \<longrightarrow>
         Purchase_findOne (snd (addBookmark ?d ''m3'' ''c1'' ''#x'' ''new text'' (Some ''u1'')))
           uid (b_id bk') = Some p' \<and>
         p' \<in> set (purchases (snd (addBookmark ?d ''m3'' ''c1'' ''#x'' ''new text'' (Some ''u1''))))"
    by blast
  from a(1,2,3) ch bk have eqs: "uid = ''u1''" "b_id bk' = ''b1''"
    by (auto simp: example_book_def)
  from a(6) dist have
    "Purchase_findOne (snd (addBookmark ?d ''m3'' ''c1'' ''#x'' ''new text'' (Some ''u1'')))
       uid (b_id bk') = Some p'"
    by (simp only: simp_thms)
  then have found:
    "Purchase_findOne (snd (addBookmark ?d ''m3'' ''c1'' ''#x'' ''new text'' (Some ''u1'')))
       ''u1'' ''b1'' = Some p'"
    by (simp only: eqs)
  have succ:
    "\<exists>p'. fst (addBookmark ?d ''m3'' ''c1'' ''#x'' ''new text'' (Some ''u1'')) = Inr p' \<and>
         last (p_bookmarks p') =
           \<lparr>bm_id = ''m3'', bm_chapterId = ''c1'', bm_hash = ''#x'', bm_text = ''new text''\<rparr> \<and>
         Purchase_findOne
           (snd (addBookmark ?d ''m3'' ''c1'' ''#x'' ''new text'' (Some ''u1''))) ''u1'' ''b1'' = Some p'"
    by (rule exI [of _ p']) (intro conjI, rule a(4), rule a(5), rule found)
  from addBookmark_raises_iff [of ?d "''m3''" "''c1''" "''#x''" "''new text''" None,
      THEN conjunct2, THEN conjunct2, THEN conjunct2, THEN conjunct2, THEN conjunct2,
      THEN conjunct1, THEN mp, OF err]
  have "snd (addBookmark ?d ''m3'' ''c1'' ''#x'' ''new text'' None) = ?d" .
  have unchanged: "snd (addBookmark ?d ''m3'' ''c1'' ''#x'' ''new text'' None) = ?d"
    by fact
  show ?thesis
    by (intro conjI) (rule ok, rule dist, rule succ, rule err, rule unchanged)
qed

subsection \<open>getBySlug\<close>

lemma attach_bookmark_frame:
  "\<exists>bm. attach_bookmark i bms obj = obj\<lparr>co_bookmark := bm\<rparr>"
proof (induction bms arbitrary: obj)
  case Nil
  show ?case unfolding attach_bookmark_def
    by (auto intro: exI [of _ "co_bookmark obj"])
next
  case (Cons b bms)
  let ?obj' = "if i = bm_chapterId b then obj\<lparr>co_bookmark := Some b\<rparr> else obj"
  from Cons [of ?obj'] obtain bm where "attach_bookmark i bms ?obj' = ?obj'\<lparr>co_bookmark := bm\<rparr>"
    by blast
  then have "attach_bookmark i (b # bms) obj = obj\<lparr>co_bookmark := bm\<rparr>"
    by (simp add: attach_bookmark_def)
  then show ?case by blast
qed

text \<open>The value the block leaves in \<open>isPurchased\<close>.\<close>

lemma flag_purchase_no_user:
  "\<not> truthy_id u \<Longrightarrow> flag_purchase d b c u a obj = obj"
  by (auto simp: flag_purchase_def truthy_id_def split: option.splits)

lemma flag_purchase_user:
  assumes "u = Some uid" and "uid \<noteq> []"
  shows "\<exists>bm. flag_purchase d b c u a obj =
           obj\<lparr>co_isPurchased :=
                 (if Purchase_findOne d uid (b_id b) \<noteq> None then JSBool True else a),
               co_bookmark := bm\<rparr>"
  using assms attach_bookmark_frame unfolding flag_purchase_def Let_def by simp


lemma withhold_content_eq:
  "withhold_content c obj =
     obj\<lparr>co_content := (if c_isFree c \<or> co_isPurchased obj = JSBool True then co_content obj else None)\<rparr>"
  by (simp add: withhold_content_def truthy_def Let_def)

lemma getBySlug_found:
  assumes "g bs u = Some b" and "Chapter_findOne_slug d (b_id b) cs = Some c"
  shows "\<exists>flag bm. getBySlug g d bs cs u a =
           Inr ((toObject c)
                  \<lparr>co_book := Some b, co_isPurchased := flag, co_bookmark := bm,
                   co_content :=
                     (if c_isFree c \<or>
                         (\<exists>uid. u = Some uid \<and> uid \<noteq> [] \<and>
                            (Purchase_findOne d uid (b_id b) \<noteq> None \<or> a = JSBool True))
                      then Some (c_content c) else None)\<rparr>)"
proof -
  let ?obj = "(toObject c)\<lparr>co_book := Some b\<rparr>"
  have g: "getBySlug g d bs cs u a = Inr (withhold_content c (flag_purchase d b c u a ?obj))"
    using assms by (simp add: getBySlug_def Let_def)
  have c0: "co_content (toObject c) = Some (c_content c)" "co_isPurchased (toObject c) = JSUndefined"
    by (simp_all add: toObject_def)
  show ?thesis
  proof (cases "truthy_id u")
    case False
    then have nouid: "\<not> (\<exists>uid. u = Some uid \<and> uid \<noteq> [] \<and>
                (Purchase_findOne d uid (b_id b) \<noteq> None \<or> a = JSBool True))"
      by (auto simp: truthy_id_def)
    have "flag_purchase d b c u a ?obj = ?obj"
      using False by (rule flag_purchase_no_user)
    then have "getBySlug g d bs cs u a =
        Inr ((toObject c)\<lparr>co_book := Some b, co_isPurchased := JSUndefined, co_bookmark := None,
               co_content := (if c_isFree c then Some (c_content c) else None)\<rparr>)"
      unfolding g by (simp add: withhold_content_eq toObject_def)
    with nouid show ?thesis by (simp only: if_False simp_thms) blast
  next
    case True
    then obtain uid where uid: "u = Some uid" "uid \<noteq> []"
      by (auto simp: truthy_id_def split: option.splits)
    let ?flag = "if Purchase_findOne d uid (b_id b) \<noteq> None then JSBool True else a"
    from flag_purchase_user [OF uid] obtain bm where
      "flag_purchase d b c u a ?obj = ?obj\<lparr>co_isPurchased := ?flag, co_bookmark := bm\<rparr>"
      by blast
    then have "getBySlug g d bs cs u a =
        Inr ((toObject c)\<lparr>co_book := Some b, co_isPurchased := ?flag, co_bookmark := bm,
               co_content := (if c_isFree c \<or> ?flag = JSBool True then Some (c_content c) else None)\<rparr>)"
      unfolding g by (simp add: withhold_content_eq c0)
    moreover have "(c_isFree c \<or> ?flag = JSBool True) =
       (c_isFree c \<or> (\<exists>uid. u = Some uid \<and> uid \<noteq> [] \<and>
                            (Purchase_findOne d uid (b_id b) \<noteq> None \<or> a = JSBool True)))"
      using uid by auto
    ultimately show ?thesis by (simp only:) blast
  qed
qed


text \<open>
  C1, amended. When the book and the chapter are found, the object returned holds the
  content exactly when the chapter is free, or a user id is supplied and that user has a
  purchase of the book or the admin flag is set. In every other case the content is
  absent: so for a request that is not free, not purchased and not admin, and also for a
  request with the admin flag and no user id, where the flag is not consulted.
\<close>

theorem getBySlug_content:
  assumes "g bs u = Some b" and "Chapter_findOne_slug d (b_id b) cs = Some c"
  shows "\<exists>obj. getBySlug g d bs cs u a = Inr obj \<and>
           co_content obj =
             (if c_isFree c \<or>
                 (\<exists>uid. u = Some uid \<and> uid \<noteq> [] \<and>
                    (Purchase_findOne d uid (b_id b) \<noteq> None \<or> a = JSBool True))
              then Some (c_content c) else None)"
proof -
  from getBySlug_found [where g = g and bs = bs and u = u and a = a, OF assms] obtain flag bm where
    "getBySlug g d bs cs u a =
           Inr ((toObject c)
                  \<lparr>co_book := Some b, co_isPurchased := flag, co_bookmark := bm,
                   co_content :=
                     (if c_isFree c \<or>
                         (\<exists>uid. u = Some uid \<and> uid \<noteq> [] \<and>
                            (Purchase_findOne d uid (b_id b) \<noteq> None \<or> a = JSBool True))
                      then Some (c_content c) else None)\<rparr>)"
    by blast
  then show ?thesis by simp
qed

lemma example_lookup_book: "example_lookup ''book'' u = Some example_book"
  by (simp add: example_lookup_def)

lemma example_findOne_slug:
  "Chapter_findOne_slug (example_db bms) (b_id example_book) ''setup'' = Some example_chapter"
  by (simp add: Chapter_findOne_slug_def example_db_def example_book_def example_chapter_def)

theorem getBySlug_content_witness:
  "\<exists>obj. getBySlug example_lookup (example_db []) ''book'' ''setup'' (Some ''u1'') JSUndefined = Inr obj \<and>
         co_content obj = Some ''paid text''"
proof -
  have "Purchase_findOne (example_db []) ''u1'' (b_id example_book) \<noteq> None"
    by (simp add: Purchase_findOne_def example_db_def example_purchase_def example_book_def)
  then have "\<exists>uid. Some ''u1'' = Some uid \<and> uid \<noteq> [] \<and>
                 (Purchase_findOne (example_db []) uid (b_id example_book) \<noteq> None \<or>
                  JSUndefined = JSBool True)"
    by simp
  with getBySlug_content [where g = example_lookup and bs = "''book''" and u = "Some ''u1''"
      and a = JSUndefined, OF example_lookup_book example_findOne_slug, of "[]"]
  show ?thesis by (simp add: example_chapter_def)
qed

text \<open>
  The claim C1 as stated fails for a request with the admin flag set and no user id: the
  chapter of the example is not free, and the object returned has no content.
\<close>

theorem getBySlug_admin_without_user:
  "getBySlug example_lookup (example_db []) ''book'' ''setup'' None (JSBool True) =
     Inr ((toObject example_chapter)\<lparr>co_book := Some example_book, co_content := None\<rparr>)"
  by (simp add: getBySlug_def example_lookup_book example_findOne_slug flag_purchase_def
      withhold_content_def truthy_def toObject_def example_chapter_def)

text \<open>
  C8. \<open>getBySlug\<close> raises exactly when the book lookup or the chapter lookup returns
  nothing, and then the error is "Not found". When both succeed it returns an object
  that carries every field of the chapter (the content either as stored or absent) and
  the book.
\<close>

theorem getBySlug_not_found_iff:
  "(isl (getBySlug g d bs cs u a) \<longleftrightarrow>
      g bs u = None \<or> (\<exists>b. g bs u = Some b \<and> Chapter_findOne_slug d (b_id b) cs = None)) \<and>
   (isl (getBySlug g d bs cs u a) \<longrightarrow> getBySlug g d bs cs u a = Inl (Error ''Not found'')) \<and>
   (\<forall>b c. g bs u = Some b \<and> Chapter_findOne_slug d (b_id b) cs = Some c \<longrightarrow>
      (\<exists>obj. getBySlug g d bs cs u a = Inr obj \<and> co_book obj = Some b \<and>
         co_id obj = c_id c \<and> co_bookId obj = c_bookId c \<and> co_isFree obj = c_isFree c \<and>
         co_githubFilePath obj = c_githubFilePath c \<and> co_title obj = c_title c \<and>
         co_slug obj = c_slug c \<and> co_excerpt obj = c_excerpt c \<and>
         co_htmlContent obj = c_htmlContent c \<and> co_createdAt obj = c_createdAt c \<and>
         co_order obj = c_order c \<and> co_seoTitle obj = c_seoTitle c \<and>
         co_seoDescription obj = c_seoDescription c \<and> co_sections obj = c_sections c \<and>
         (co_content obj = Some (c_content c) \<or> co_content obj = None)))"
proof (cases "g bs u")
  case None
  then show ?thesis by (simp add: getBySlug_def)
next
  case (Some b)
  show ?thesis
  proof (cases "Chapter_findOne_slug d (b_id b) cs")
    case None
    with Some show ?thesis by (simp add: getBySlug_def)
  next
    case c: (Some c)
    from getBySlug_found [where g = g and bs = bs and u = u and a = a, OF Some c]
    obtain flag bm where
      r: "getBySlug g d bs cs u a =
         Inr ((toObject c)\<lparr>co_book := Some b, co_isPurchased := flag, co_bookmark := bm,
                co_content := (if c_isFree c \<or>
                         (\<exists>uid. u = Some uid \<and> uid \<noteq> [] \<and>
                            (Purchase_findOne d uid (b_id b) \<noteq> None \<or> a = JSBool True))
                      then Some (c_content c) else None)\<rparr>)"
      by blast
    define x where "x = (if c_isFree c \<or>
                         (\<exists>uid. u = Some uid \<and> uid \<noteq> [] \<and>
                            (Purchase_findOne d uid (b_id b) \<noteq> None \<or> a = JSBool True))
                      then Some (c_content c) else None)"
    have x: "x = Some (c_content c) \<or> x = None"
      by (simp add: x_def)
    define obj where
      "obj = (toObject c)\<lparr>co_book := Some b, co_isPurchased := flag, co_bookmark := bm,
                co_content := x\<rparr>"
    have fields: "co_book obj = Some b" "co_id obj = c_id c" "co_bookId obj = c_bookId c"
      "co_isFree obj = c_isFree c" "co_githubFilePath obj = c_githubFilePath c"
      "co_title obj = c_title c" "co_slug obj = c_slug c" "co_excerpt obj = c_excerpt c"
      "co_htmlContent obj = c_htmlContent c" "co_createdAt obj = c_createdAt c"
      "co_order obj = c_order c" "co_seoTitle obj = c_seoTitle c"
      "co_seoDescription obj = c_seoDescription c" "co_sections obj = c_sections c"
      "co_content obj = x"
      by (simp_all add: obj_def toObject_def)
    from r have R: "getBySlug g d bs cs u a = Inr obj"
      by (simp only: obj_def x_def)
    have 1: "isl (getBySlug g d bs cs u a) \<longleftrightarrow>
      g bs u = None \<or> (\<exists>b. g bs u = Some b \<and> Chapter_findOne_slug d (b_id b) cs = None)"
      using Some c by (simp add: R)
    have 2: "isl (getBySlug g d bs cs u a) \<longrightarrow> getBySlug g d bs cs u a = Inl (Error ''Not found'')"
      by (simp add: R)
    have 3: "\<exists>obj. getBySlug g d bs cs u a = Inr obj \<and> co_book obj = Some b \<and>
         co_id obj = c_id c \<and> co_bookId obj = c_bookId c \<and> co_isFree obj = c_isFree c \<and>
         co_githubFilePath obj = c_githubFilePath c \<and> co_title obj = c_title c \<and>
         co_slug obj = c_slug c \<and> co_excerpt obj = c_excerpt c \<and>
         co_htmlContent obj = c_htmlContent c \<and> co_createdAt obj = c_createdAt c \<and>
         co_order obj = c_order c \<and> co_seoTitle obj = c_seoTitle c \<and>
         co_seoDescription obj = c_seoDescription c \<and> co_sections obj = c_sections c \<and>
         (co_content obj = Some (c_content c) \<or> co_content obj = None)"
      using R fields x by (intro exI [of _ obj]) (simp only: simp_thms)
    from 1 2 3 show ?thesis
      using Some c by simp
  qed
qed

theorem getBySlug_not_found_iff_witness:
  "(\<exists>obj. getBySlug example_lookup (example_db []) ''book'' ''setup'' None JSUndefined = Inr obj \<and>
          co_book obj = Some example_book \<and> co_title obj = ''Setup'') \<and>
   getBySlug example_lookup (example_db []) ''book'' ''no-such-chapter'' None JSUndefined =
     Inl (Error ''Not found'')"
proof -
  have "isl (getBySlug example_lookup (example_db []) ''book'' ''no-such-chapter'' None JSUndefined)"
    by (simp add: getBySlug_def example_lookup_book Chapter_findOne_slug_def example_db_def
        example_book_def example_chapter_def)
  with getBySlug_not_found_iff [where g = example_lookup and d = "example_db []" and bs = "''book''"
      and cs = "''no-such-chapter''" and u = None and a = JSUndefined]
  have a: "getBySlug example_lookup (example_db []) ''book'' ''no-such-chapter'' None JSUndefined =
     Inl (Error ''Not found'')"
    by blast
  from getBySlug_not_found_iff [where g = example_lookup and d = "example_db []" and bs = "''book''"
      and cs = "''setup''" and u = None and a = JSUndefined]
    example_lookup_book [of None] example_findOne_slug [of "[]"]
  have "\<exists>obj. getBySlug example_lookup (example_db []) ''book'' ''setup'' None JSUndefined = Inr obj \<and>
          co_book obj = Some example_book \<and> co_title obj = c_title example_chapter"
    by blast
  with a show ?thesis by (simp add: example_chapter_def)
qed

subsection \<open>syncContent\<close>

lemma marked_collecting_sections:
  "snd (marked_collecting sv (he_decode sv src) acc) = acc @ getSections sv src"
  by (simp add: marked_collecting_def getSections_def fold_sections_heading)

lemma marked_collecting_output:
  "fst (marked_collecting sv src acc) = marked_plain sv src"
  by (simp add: marked_collecting_def)

lemma cast_enumerate_entries:
  "map entry_of
     (map (\<lambda>(i, e). \<lparr>ss_id = subId i, ss_text = s_text e, ss_level = s_level e,
                     ss_escapedText = s_escapedText e\<rparr>) (enumerate n secs)) = secs"
  by (induction secs arbitrary: n) (simp_all add: entry_of_def)

lemma cast_sections_entries: "map entry_of (cast_sections subId secs) = secs"
  unfolding cast_sections_def by (rule cast_enumerate_entries)

lemma cast_sections_ids: "map ss_id (cast_sections subId secs) = map subId [0..<length secs]"
proof -
  have "map ss_id (cast_sections subId secs) = map subId (map fst (enumerate 0 secs))"
    unfolding map_map by (simp add: cast_sections_def split_def o_def)
  then show ?thesis by (simp only: map_fst_enumerate add_0)
qed

lemma syncContent_update_eq:
  assumes "Chapter_findOne_path d (b_id book) (d_path dat) = Some ch"
  shows "syncContent sv d newId now subId book dat =
     (let base = \<lparr>m_content = d_body dat, m_htmlContent = markdownToHtml sv (d_body dat),
             m_sections = getSections sv (d_body dat)
                @ getSections sv (or_default [] (a_excerpt (d_attributes dat))),
             m_excerpt = marked_plain sv (he_decode sv (or_default [] (a_excerpt (d_attributes dat)))),
             m_isFree = or_default False (a_isFree (d_attributes dat)),
             m_order = chapter_order (d_path dat),
             m_seoTitle = or_default [] (a_seoTitle (d_attributes dat)),
             m_seoDescription = or_default [] (a_seoDescription (d_attributes dat)),
             m_title = None, m_slug = None\<rparr>;
          m = (if a_title (d_attributes dat) \<noteq> c_title ch
          then base\<lparr>m_title := Some (a_title (d_attributes dat)),
                    m_slug := Some (generateSlug sv (chapters d) (a_title (d_attributes dat))
                                      (c_bookId ch))\<rparr>
          else base)
      in (Updated m,
          d\<lparr>chapters := update_first (\<lambda>c. c_id c = c_id ch) (apply_set subId m) (chapters d)\<rparr>))"
  using assms
  by (simp add: syncContent_def Let_def marked_collecting_sections marked_collecting_output)

lemma syncContent_create_eq:
  assumes "Chapter_findOne_path d (b_id book) (d_path dat) = None"
  shows "syncContent sv d newId now subId book dat =
     (let doc = \<lparr>c_id = newId, c_bookId = b_id book,
             c_isFree = or_default False (a_isFree (d_attributes dat)),
             c_githubFilePath = d_path dat, c_title = a_title (d_attributes dat),
             c_slug = generateSlug sv (chapters d) (a_title (d_attributes dat)) (b_id book),
             c_excerpt = marked_plain sv (he_decode sv (or_default [] (a_excerpt (d_attributes dat)))),
             c_content = d_body dat, c_htmlContent = markdownToHtml sv (d_body dat),
             c_createdAt = now, c_order = chapter_order (d_path dat),
             c_seoTitle = or_default [] (a_seoTitle (d_attributes dat)),
             c_seoDescription = or_default [] (a_seoDescription (d_attributes dat)),
             c_sections = cast_sections subId
               (getSections sv (d_body dat)
                  @ getSections sv (or_default [] (a_excerpt (d_attributes dat))))\<rparr>
      in (Created doc, d\<lparr>chapters := chapters d @ [doc]\<rparr>))"
  using assms
  by (simp add: syncContent_def Let_def marked_collecting_sections marked_collecting_output)

lemma find_append_None:
  "find P xs = None \<Longrightarrow> find P (xs @ [y]) = (if P y then Some y else None)"
  by (induction xs) (auto split: if_splits)

lemma update_first_append_fresh:
  "\<forall>x\<in>set xs. \<not> Q x \<Longrightarrow> Q y \<Longrightarrow> update_first Q f (xs @ [y]) = xs @ [f y]"
  by (induction xs) auto

lemma apply_set_keeps:
  "c_id (apply_set subId m c) = c_id c" "c_bookId (apply_set subId m c) = c_bookId c"
  "c_githubFilePath (apply_set subId m c) = c_githubFilePath c"
  "c_createdAt (apply_set subId m c) = c_createdAt c"
  by (simp_all add: apply_set_def)

lemma apply_set_writes:
  "c_content (apply_set subId m c) = m_content m"
  "c_htmlContent (apply_set subId m c) = m_htmlContent m"
  "c_sections (apply_set subId m c) = cast_sections subId (m_sections m)"
  "c_excerpt (apply_set subId m c) = m_excerpt m"
  "c_isFree (apply_set subId m c) = m_isFree m"
  "c_order (apply_set subId m c) = m_order m"
  "c_seoTitle (apply_set subId m c) = m_seoTitle m"
  "c_seoDescription (apply_set subId m c) = m_seoDescription m"
  "c_title (apply_set subId m c) = (case m_title m of None \<Rightarrow> c_title c | Some x \<Rightarrow> x)"
  "c_slug (apply_set subId m c) = (case m_slug m of None \<Rightarrow> c_slug c | Some x \<Rightarrow> x)"
  by (simp_all add: apply_set_def)

text \<open>
  C6. When \<open>syncContent\<close> finds a chapter by book and path (in a store whose chapter ids
  are distinct), the modifier it hands to the update sets content, htmlContent, sections,
  excerpt, isFree, order, seoTitle and seoDescription to the values computed from the
  payload; it holds a title and a slug if and only if the payload's title differs from
  the stored one, and then they are the payload's title and the generated slug. The
  chapter stored under the same id afterwards has these eight values (its sections as
  sub-documents with the ids of this write), the payload's title, the generated slug if
  the title differed and its old slug otherwise, and its id, book, path and creation
  date as before.
\<close>

theorem syncContent_updates_fields:
  assumes "Chapter_findOne_path d (b_id book) (d_path dat) = Some ch"
    and "distinct (map c_id (chapters d))"
  shows "\<exists>m ch'. fst (syncContent sv d newId now subId book dat) = Updated m \<and>
           m_content m = d_body dat \<and>
           m_htmlContent m = markdownToHtml sv (d_body dat) \<and>
           m_sections m = getSections sv (d_body dat)
              @ getSections sv (or_default [] (a_excerpt (d_attributes dat))) \<and>
           m_excerpt m = marked_plain sv (he_decode sv (or_default [] (a_excerpt (d_attributes dat)))) \<and>
           m_isFree m = or_default False (a_isFree (d_attributes dat)) \<and>
           m_order m = chapter_order (d_path dat) \<and>
           m_seoTitle m = or_default [] (a_seoTitle (d_attributes dat)) \<and>
           m_seoDescription m = or_default [] (a_seoDescription (d_attributes dat)) \<and>
           (m_title m \<noteq> None \<longleftrightarrow> a_title (d_attributes dat) \<noteq> c_title ch) \<and>
           (m_slug m \<noteq> None \<longleftrightarrow> a_title (d_attributes dat) \<noteq> c_title ch) \<and>
           (a_title (d_attributes dat) \<noteq> c_title ch \<longrightarrow>
              m_title m = Some (a_title (d_attributes dat)) \<and>
              m_slug m = Some (generateSlug sv (chapters d) (a_title (d_attributes dat)) (c_bookId ch))) \<and>
           Chapter_findById (snd (syncContent sv d newId now subId book dat)) (c_id ch) = Some ch' \<and>
           c_content ch' = d_body dat \<and>
           c_htmlContent ch' = markdownToHtml sv (d_body dat) \<and>
           map entry_of (c_sections ch') = getSections sv (d_body dat)
              @ getSections sv (or_default [] (a_excerpt (d_attributes dat))) \<and>
           map ss_id (c_sections ch') = map subId [0..<length (c_sections ch')] \<and>
           c_excerpt ch' = marked_plain sv (he_decode sv (or_default [] (a_excerpt (d_attributes dat)))) \<and>
           c_isFree ch' = or_default False (a_isFree (d_attributes dat)) \<and>
           c_order ch' = chapter_order (d_path dat) \<and>
           c_seoTitle ch' = or_default [] (a_seoTitle (d_attributes dat)) \<and>
           c_seoDescription ch' = or_default [] (a_seoDescription (d_attributes dat)) \<and>
           c_title ch' = a_title (d_attributes dat) \<and>
           c_slug ch' = (if a_title (d_attributes dat) \<noteq> c_title ch
                         then generateSlug sv (chapters d) (a_title (d_attributes dat)) (c_bookId ch)
                         else c_slug ch) \<and>
           c_id ch' = c_id ch \<and> c_bookId ch' = c_bookId ch \<and>
           c_githubFilePath ch' = c_githubFilePath ch \<and> c_createdAt ch' = c_createdAt ch"
proof -
  define base where
    "base = \<lparr>m_content = d_body dat, m_htmlContent = markdownToHtml sv (d_body dat),
             m_sections = getSections sv (d_body dat)
                @ getSections sv (or_default [] (a_excerpt (d_attributes dat))),
             m_excerpt = marked_plain sv (he_decode sv (or_default [] (a_excerpt (d_attributes dat)))),
             m_isFree = or_default False (a_isFree (d_attributes dat)),
             m_order = chapter_order (d_path dat),
             m_seoTitle = or_default [] (a_seoTitle (d_attributes dat)),
             m_seoDescription = or_default [] (a_seoDescription (d_attributes dat)),
             m_title = None, m_slug = None\<rparr>"
  define m where
    "m = (if a_title (d_attributes dat) \<noteq> c_title ch
          then base\<lparr>m_title := Some (a_title (d_attributes dat)),
                    m_slug := Some (generateSlug sv (chapters d) (a_title (d_attributes dat))
                                      (c_bookId ch))\<rparr>
          else base)"
  define ch' where "ch' = apply_set subId m ch"
  have eq: "syncContent sv d newId now subId book dat =
     (Updated m, d\<lparr>chapters := update_first (\<lambda>c. c_id c = c_id ch) (apply_set subId m) (chapters d)\<rparr>)"
    unfolding m_def base_def using syncContent_update_eq [OF assms(1), of sv newId now subId]
    by (simp only: Let_def)
  have fields: "m_content m = d_body dat"
    "m_htmlContent m = markdownToHtml sv (d_body dat)"
    "m_sections m = getSections sv (d_body dat)
              @ getSections sv (or_default [] (a_excerpt (d_attributes dat)))"
    "m_excerpt m = marked_plain sv (he_decode sv (or_default [] (a_excerpt (d_attributes dat))))"
    "m_isFree m = or_default False (a_isFree (d_attributes dat))"
    "m_order m = chapter_order (d_path dat)"
    "m_seoTitle m = or_default [] (a_seoTitle (d_attributes dat))"
    "m_seoDescription m = or_default [] (a_seoDescription (d_attributes dat))"
    by (simp_all add: m_def base_def)
  have title: "m_title m \<noteq> None \<longleftrightarrow> a_title (d_attributes dat) \<noteq> c_title ch"
    "m_slug m \<noteq> None \<longleftrightarrow> a_title (d_attributes dat) \<noteq> c_title ch"
    "a_title (d_attributes dat) \<noteq> c_title ch \<longrightarrow>
       m_title m = Some (a_title (d_attributes dat)) \<and>
       m_slug m = Some (generateSlug sv (chapters d) (a_title (d_attributes dat)) (c_bookId ch))"
    by (simp_all add: m_def base_def)
  from assms(1) have chin: "ch \<in> set (chapters d)"
    unfolding Chapter_findOne_path_def by (simp add: find_in_set)
  have "Chapter_findById (snd (syncContent sv d newId now subId book dat)) (c_id ch) =
        find (\<lambda>c. c_id c = c_id ch)
          (map (\<lambda>x. if c_id x = c_id ch then apply_set subId m x else x) (chapters d))"
    unfolding eq Chapter_findById_def using assms(2) by (simp add: update_first_distinct)
  also have "\<dots> = map_option (\<lambda>x. if c_id x = c_id ch then apply_set subId m x else x)
                     (find (\<lambda>c. c_id c = c_id ch) (chapters d))"
    by (rule find_map_same) (simp add: apply_set_keeps)
  also have "\<dots> = Some ch'"
    using find_distinct_key [OF assms(2) chin] by (simp add: ch'_def)
  finally have stored: "Chapter_findById (snd (syncContent sv d newId now subId book dat)) (c_id ch) =
        Some ch'" .
  have written: "c_content ch' = d_body dat"
    "c_htmlContent ch' = markdownToHtml sv (d_body dat)"
    "c_excerpt ch' = marked_plain sv (he_decode sv (or_default [] (a_excerpt (d_attributes dat))))"
    "c_isFree ch' = or_default False (a_isFree (d_attributes dat))"
    "c_order ch' = chapter_order (d_path dat)"
    "c_seoTitle ch' = or_default [] (a_seoTitle (d_attributes dat))"
    "c_seoDescription ch' = or_default [] (a_seoDescription (d_attributes dat))"
    unfolding ch'_def by (simp_all add: apply_set_writes fields)
  have secs: "map entry_of (c_sections ch') = getSections sv (d_body dat)
              @ getSections sv (or_default [] (a_excerpt (d_attributes dat)))"
    "map ss_id (c_sections ch') = map subId [0..<length (c_sections ch')]"
  proof -
    have s: "c_sections ch' = cast_sections subId (m_sections m)"
      unfolding ch'_def by (rule apply_set_writes)
    show "map entry_of (c_sections ch') = getSections sv (d_body dat)
              @ getSections sv (or_default [] (a_excerpt (d_attributes dat)))"
      unfolding s cast_sections_entries by (rule fields)
    have "length (cast_sections subId (m_sections m)) = length (m_sections m)"
      by (simp add: cast_sections_def)
    then show "map ss_id (c_sections ch') = map subId [0..<length (c_sections ch')]"
      unfolding s by (simp add: cast_sections_ids)
  qed
  have names: "c_title ch' = a_title (d_attributes dat)"
    "c_slug ch' = (if a_title (d_attributes dat) \<noteq> c_title ch
                   then generateSlug sv (chapters d) (a_title (d_attributes dat)) (c_bookId ch)
                   else c_slug ch)"
    unfolding ch'_def by (simp_all add: apply_set_writes m_def base_def)
  have kept: "c_id ch' = c_id ch" "c_bookId ch' = c_bookId ch"
    "c_githubFilePath ch' = c_githubFilePath ch" "c_createdAt ch' = c_createdAt ch"
    unfolding ch'_def by (rule apply_set_keeps)+
  from eq have res: "fst (syncContent sv d newId now subId book dat) = Updated m" by simp
  show ?thesis
    by (rule exI [of _ m], rule exI [of _ ch'])
       (intro conjI res fields title stored written secs names kept)
qed

lemma apply_set_again:
  assumes "m_content m' = m_content m" "m_htmlContent m' = m_htmlContent m"
    "m_sections m' = m_sections m" "m_excerpt m' = m_excerpt m" "m_isFree m' = m_isFree m"
    "m_order m' = m_order m" "m_seoTitle m' = m_seoTitle m"
    "m_seoDescription m' = m_seoDescription m" "m_title m' = None" "m_slug m' = None"
  shows "apply_set subId' m' (apply_set subId m c) = renew_section_ids subId' (apply_set subId m c)"
  using assms by (simp add: apply_set_def renew_section_ids_def cast_sections_entries)

lemma syncContent_again_after_update:
  assumes found: "Chapter_findOne_path d (b_id book) (d_path dat) = Some ch"
    and dist: "distinct (map c_id (chapters d))"
  shows "\<exists>ch1 m'.
           Chapter_findOne_path (snd (syncContent sv d newId now subId book dat)) (b_id book)
             (d_path dat) = Some ch1 \<and>
           fst (syncContent sv (snd (syncContent sv d newId now subId book dat)) newId' now' subId'
                  book dat) = Updated m' \<and>
           m_title m' = None \<and> m_slug m' = None \<and>
           snd (syncContent sv (snd (syncContent sv d newId now subId book dat)) newId' now' subId'
                  book dat) =
             (snd (syncContent sv d newId now subId book dat))
               \<lparr>chapters :=
                  map (\<lambda>c. if c_id c = c_id ch1 then renew_section_ids subId' c else c)
                    (chapters (snd (syncContent sv d newId now subId book dat)))\<rparr>"
proof -
  define base where
    "base = \<lparr>m_content = d_body dat, m_htmlContent = markdownToHtml sv (d_body dat),
             m_sections = getSections sv (d_body dat)
                @ getSections sv (or_default [] (a_excerpt (d_attributes dat))),
             m_excerpt = marked_plain sv (he_decode sv (or_default [] (a_excerpt (d_attributes dat)))),
             m_isFree = or_default False (a_isFree (d_attributes dat)),
             m_order = chapter_order (d_path dat),
             m_seoTitle = or_default [] (a_seoTitle (d_attributes dat)),
             m_seoDescription = or_default [] (a_seoDescription (d_attributes dat)),
             m_title = None, m_slug = None\<rparr>"
  define m where
    "m = (if a_title (d_attributes dat) \<noteq> c_title ch
          then base\<lparr>m_title := Some (a_title (d_attributes dat)),
                    m_slug := Some (generateSlug sv (chapters d) (a_title (d_attributes dat))
                                      (c_bookId ch))\<rparr>
          else base)"
  define g where "g = (\<lambda>x. if c_id x = c_id ch then apply_set subId m x else x)"
  define d1 where "d1 = d\<lparr>chapters := map g (chapters d)\<rparr>"
  have "syncContent sv d newId now subId book dat =
     (Updated m, d\<lparr>chapters := update_first (\<lambda>c. c_id c = c_id ch) (apply_set subId m) (chapters d)\<rparr>)"
    unfolding m_def base_def using syncContent_update_eq [OF found, of sv newId now subId]
    by (simp only: Let_def)
  then have first: "snd (syncContent sv d newId now subId book dat) = d1"
    unfolding d1_def g_def using dist by (simp add: update_first_distinct)
  have g_keeps: "c_id (g x) = c_id x" "c_bookId (g x) = c_bookId x"
    "c_githubFilePath (g x) = c_githubFilePath x" for x
    by (simp_all add: g_def apply_set_keeps)
  have "Chapter_findOne_path d1 (b_id book) (d_path dat) =
        map_option g (Chapter_findOne_path d (b_id book) (d_path dat))"
    unfolding Chapter_findOne_path_def d1_def
    by (simp add: find_map_same g_keeps)
  then have found1: "Chapter_findOne_path d1 (b_id book) (d_path dat) = Some (apply_set subId m ch)"
    using found by (simp add: g_def)
  have title1: "c_title (apply_set subId m ch) = a_title (d_attributes dat)"
    by (simp add: apply_set_def m_def base_def)
  have second: "syncContent sv d1 newId' now' subId' book dat =
     (Updated base,
      d1\<lparr>chapters := update_first (\<lambda>c. c_id c = c_id ch) (apply_set subId' base) (chapters d1)\<rparr>)"
    using syncContent_update_eq [OF found1, of sv newId' now' subId'] title1
    unfolding base_def by (simp add: Let_def apply_set_keeps)
  have dist1: "distinct (map c_id (chapters d1))"
    using dist by (simp add: d1_def o_def g_keeps)
  have base_m: "apply_set subId' base (apply_set subId m x) =
                renew_section_ids subId' (apply_set subId m x)" for x
    by (rule apply_set_again) (simp_all add: m_def base_def)
  have "update_first (\<lambda>c. c_id c = c_id ch) (apply_set subId' base) (chapters d1) =
        map (\<lambda>x. if c_id x = c_id ch then apply_set subId' base x else x) (chapters d1)"
    using dist1 by (rule update_first_distinct)
  also have "\<dots> = map (\<lambda>c. if c_id c = c_id ch then renew_section_ids subId' c else c) (chapters d1)"
    unfolding d1_def by (simp add: g_def base_m apply_set_keeps)
  finally have "syncContent sv d1 newId' now' subId' book dat =
     (Updated base,
      d1\<lparr>chapters :=
           map (\<lambda>c. if c_id c = c_id (apply_set subId m ch) then renew_section_ids subId' c else c)
             (chapters d1)\<rparr>)"
    using second by (simp add: apply_set_keeps)
  moreover have "m_title base = None" "m_slug base = None"
    by (simp_all add: base_def)
  ultimately show ?thesis
    unfolding first using found1 by (intro exI [of _ "apply_set subId m ch"] exI [of _ base]) simp
qed

lemma syncContent_again_after_create:
  assumes absent: "Chapter_findOne_path d (b_id book) (d_path dat) = None"
    and fresh: "newId \<notin> c_id ` set (chapters d)"
  shows "\<exists>ch1 m'.
           Chapter_findOne_path (snd (syncContent sv d newId now subId book dat)) (b_id book)
             (d_path dat) = Some ch1 \<and>
           fst (syncContent sv (snd (syncContent sv d newId now subId book dat)) newId' now' subId'
                  book dat) = Updated m' \<and>
           m_title m' = None \<and> m_slug m' = None \<and>
           snd (syncContent sv (snd (syncContent sv d newId now subId book dat)) newId' now' subId'
                  book dat) =
             (snd (syncContent sv d newId now subId book dat))
               \<lparr>chapters :=
                  map (\<lambda>c. if c_id c = c_id ch1 then renew_section_ids subId' c else c)
                    (chapters (snd (syncContent sv d newId now subId book dat)))\<rparr>"
proof -
  define base where
    "base = \<lparr>m_content = d_body dat, m_htmlContent = markdownToHtml sv (d_body dat),
             m_sections = getSections sv (d_body dat)
                @ getSections sv (or_default [] (a_excerpt (d_attributes dat))),
             m_excerpt = marked_plain sv (he_decode sv (or_default [] (a_excerpt (d_attributes dat)))),
             m_isFree = or_default False (a_isFree (d_attributes dat)),
             m_order = chapter_order (d_path dat),
             m_seoTitle = or_default [] (a_seoTitle (d_attributes dat)),
             m_seoDescription = or_default [] (a_seoDescription (d_attributes dat)),
             m_title = None, m_slug = None\<rparr>"
  define doc where
    "doc = \<lparr>c_id = newId, c_bookId = b_id book,
             c_isFree = or_default False (a_isFree (d_attributes dat)),
             c_githubFilePath = d_path dat, c_title = a_title (d_attributes dat),
             c_slug = generateSlug sv (chapters d) (a_title (d_attributes dat)) (b_id book),
             c_excerpt = marked_plain sv (he_decode sv (or_default [] (a_excerpt (d_attributes dat)))),
             c_content = d_body dat, c_htmlContent = markdownToHtml sv (d_body dat),
             c_createdAt = now, c_order = chapter_order (d_path dat),
             c_seoTitle = or_default [] (a_seoTitle (d_attributes dat)),
             c_seoDescription = or_default [] (a_seoDescription (d_attributes dat)),
             c_sections = cast_sections subId
               (getSections sv (d_body dat)
                  @ getSections sv (or_default [] (a_excerpt (d_attributes dat))))\<rparr>"
  define d1 where "d1 = d\<lparr>chapters := chapters d @ [doc]\<rparr>"
  have "syncContent sv d newId now subId book dat = (Created doc, d1)"
    unfolding doc_def d1_def using syncContent_create_eq [OF absent, of sv newId now subId]
    by (simp only: Let_def)
  then have first: "snd (syncContent sv d newId now subId book dat) = d1" by simp
  have doc_keys: "c_id doc = newId" "c_bookId doc = b_id book" "c_githubFilePath doc = d_path dat"
    "c_title doc = a_title (d_attributes dat)"
    by (simp_all add: doc_def)
  have found1: "Chapter_findOne_path d1 (b_id book) (d_path dat) = Some doc"
    using absent unfolding Chapter_findOne_path_def d1_def
    by (simp add: find_append_None doc_keys)
  have second: "syncContent sv d1 newId' now' subId' book dat =
     (Updated base,
      d1\<lparr>chapters := update_first (\<lambda>c. c_id c = newId) (apply_set subId' base) (chapters d1)\<rparr>)"
    using syncContent_update_eq [OF found1, of sv newId' now' subId'] doc_keys
    unfolding base_def by (simp add: Let_def)
  have same: "apply_set subId' base doc = renew_section_ids subId' doc"
    by (simp add: apply_set_def renew_section_ids_def base_def doc_def cast_sections_entries)
  have others: "\<forall>x\<in>set (chapters d). c_id x \<noteq> newId"
    using fresh by auto
  then have keep: "map (\<lambda>c. if c_id c = newId then renew_section_ids subId' c else c) (chapters d) =
                   chapters d"
    by (simp add: map_idI)
  have "update_first (\<lambda>c. c_id c = newId) (apply_set subId' base) (chapters d @ [doc]) =
        chapters d @ [apply_set subId' base doc]"
    using others by (intro update_first_append_fresh) (auto simp: doc_keys)
  also have "\<dots> = map (\<lambda>c. if c_id c = newId then renew_section_ids subId' c else c)
                     (chapters d @ [doc])"
    by (simp add: keep same doc_keys)
  finally have "syncContent sv d1 newId' now' subId' book dat =
     (Updated base,
      d1\<lparr>chapters :=
           map (\<lambda>c. if c_id c = c_id doc then renew_section_ids subId' c else c) (chapters d1)\<rparr>)"
    using second by (simp add: d1_def doc_keys)
  moreover have "m_title base = None" "m_slug base = None"
    by (simp_all add: base_def)
  ultimately show ?thesis
    unfolding first using found1 by (intro exI [of _ doc] exI [of _ base]) simp
qed

text \<open>
  C3, amended. In a store whose chapter ids are distinct, and with a fresh id for a
  document that is created, a second call of \<open>syncContent\<close> with the same book and payload
  is an update of the chapter the first call wrote, with a modifier that holds no title
  and no slug: the slug is not regenerated. It leaves the store as the first call left
  it, except that the section sub-documents of that chapter carry the ids of the second
  write.
\<close>

theorem syncContent_twice:
  assumes "distinct (map c_id (chapters d))" and "newId \<notin> c_id ` set (chapters d)"
  shows "\<exists>ch1 m'.
           Chapter_findOne_path (snd (syncContent sv d newId now subId book dat)) (b_id book)
             (d_path dat) = Some ch1 \<and>
           fst (syncContent sv (snd (syncContent sv d newId now subId book dat)) newId' now' subId'
                  book dat) = Updated m' \<and>
           m_title m' = None \<and> m_slug m' = None \<and>
           snd (syncContent sv (snd (syncContent sv d newId now subId book dat)) newId' now' subId'
                  book dat) =
             (snd (syncContent sv d newId now subId book dat))
               \<lparr>chapters :=
                  map (\<lambda>c. if c_id c = c_id ch1 then renew_section_ids subId' c else c)
                    (chapters (snd (syncContent sv d newId now subId book dat)))\<rparr>"
proof (cases "Chapter_findOne_path d (b_id book) (d_path dat)")
  case None
  then show ?thesis using assms(2) by (rule syncContent_again_after_create)
next
  case (Some ch)
  then show ?thesis using assms(1) by (rule syncContent_again_after_update)
qed

lemma example_findOne_path:
  "Chapter_findOne_path (example_db bms) (b_id example_book) (d_path (example_data ''chapter-1.md'')) =
     Some example_chapter"
  by (simp add: Chapter_findOne_path_def example_db_def example_book_def example_chapter_def
      example_data_def)

lemma example_findOne_path_absent:
  "Chapter_findOne_path (example_db bms) (b_id example_book) (d_path (example_data ''chapter-2.md'')) =
     None"
  by (simp add: Chapter_findOne_path_def example_db_def example_book_def example_chapter_def
      example_data_def)

lemma example_distinct: "distinct (map c_id (chapters (example_db bms)))"
  by (simp add: example_db_def)

lemma example_fresh: "''n1'' \<notin> c_id ` set (chapters (example_db bms))"
  by (simp add: example_db_def example_chapter_def)

lemma example_sections:
  "getSections example_services (d_body (example_data path))
     @ getSections example_services (or_default [] (a_excerpt (d_attributes (example_data path)))) =
   [\<lparr>s_text = ''Install'', s_level = 2, s_escapedText = escapedText_of ''Install''\<rparr>]"
  by (simp add: getSections_def marked_collecting_def example_services_def example_data_def
      or_default_def sections_heading_def)

theorem syncContent_updates_fields_witness:
  "\<exists>m ch'. fst (syncContent example_services (example_db []) ''n1'' 7 (example_sub_id ''s'')
                  example_book (example_data ''chapter-1.md'')) = Updated m \<and>
       m_content m = ''## Install'' \<and> m_isFree m = True \<and>
       m_title m = Some ''Install'' \<and> m_slug m = Some ''install'' \<and>
       Chapter_findById
         (snd (syncContent example_services (example_db []) ''n1'' 7 (example_sub_id ''s'')
                 example_book (example_data ''chapter-1.md''))) ''c1'' = Some ch' \<and>
       c_content ch' = ''## Install'' \<and> c_isFree ch' = True \<and> c_title ch' = ''Install'' \<and>
       c_slug ch' = ''install'' \<and> map ss_id (c_sections ch') = [''s'']"
proof -
  let ?call = "syncContent example_services (example_db []) ''n1'' 7 (example_sub_id ''s'')
                 example_book (example_data ''chapter-1.md'')"
  have t: "a_title (d_attributes (example_data ''chapter-1.md'')) \<noteq> c_title example_chapter"
    by (simp add: example_data_def example_chapter_def)
  have s: "generateSlug example_services (chapters (example_db []))
             (a_title (d_attributes (example_data ''chapter-1.md''))) (c_bookId example_chapter) =
           ''install''"
    by code_simp
  from syncContent_updates_fields [where sv = example_services and newId = "''n1''" and now = 7
      and subId = "example_sub_id ''s''",
      OF example_findOne_path [of "[]"] example_distinct]
  obtain m ch' where a:
    "fst ?call = Updated m"
    "m_content m = d_body (example_data ''chapter-1.md'')"
    "m_isFree m = or_default False (a_isFree (d_attributes (example_data ''chapter-1.md'')))"
    "a_title (d_attributes (example_data ''chapter-1.md'')) \<noteq> c_title example_chapter \<longrightarrow>
       m_title m = Some (a_title (d_attributes (example_data ''chapter-1.md''))) \<and>
       m_slug m = Some (generateSlug example_services (chapters (example_db []))
             (a_title (d_attributes (example_data ''chapter-1.md''))) (c_bookId example_chapter))"
    "Chapter_findById (snd ?call) (c_id example_chapter) = Some ch'"
    "c_content ch' = d_body (example_data ''chapter-1.md'')"
    "map entry_of (c_sections ch') =
       getSections example_services (d_body (example_data ''chapter-1.md''))
       @ getSections example_services
           (or_default [] (a_excerpt (d_attributes (example_data ''chapter-1.md''))))"
    "map ss_id (c_sections ch') = map (example_sub_id ''s'') [0..<length (c_sections ch')]"
    "c_isFree ch' = or_default False (a_isFree (d_attributes (example_data ''chapter-1.md'')))"
    "c_title ch' = a_title (d_attributes (example_data ''chapter-1.md''))"
    "c_slug ch' = (if a_title (d_attributes (example_data ''chapter-1.md'')) \<noteq> c_title example_chapter
                   then generateSlug example_services (chapters (example_db []))
                          (a_title (d_attributes (example_data ''chapter-1.md'')))
                          (c_bookId example_chapter)
                   else c_slug example_chapter)"
    by (elim exE conjE)
  from a(7) have "length (map entry_of (c_sections ch')) = 1"
    by (simp only: example_sections list.size)
  then have n: "length (c_sections ch') = 1" by simp
  have ids: "map ss_id (c_sections ch') = [''s'']"
    unfolding a(8) n by (simp add: example_sub_id_def)
  have m: "m_content m = ''## Install''" "m_isFree m = True" "m_title m = Some ''Install''"
    "m_slug m = Some ''install''"
    using a(2,3,4) t s by (simp_all add: example_data_def or_default_def)
  have c: "Chapter_findById (snd ?call) ''c1'' = Some ch'" "c_content ch' = ''## Install''"
    "c_isFree ch' = True" "c_title ch' = ''Install''" "c_slug ch' = ''install''"
    using a(5,6,9,10,11) t s by (simp_all add: example_data_def or_default_def example_chapter_def)
  show ?thesis
    by (rule exI [of _ m], rule exI [of _ ch']) (intro conjI a(1) m c ids)
qed


text \<open>
  The claim C3 as stated fails whenever the payload has a section. The chapter created by
  the first call stores its section with the id of that write; the second call sets the
  sections again and the store gives the sub-document the id of the second write, so the
  store after two calls is not the store after one.
\<close>

theorem syncContent_twice_differs:
  "map (\<lambda>c. map ss_id (c_sections c))
     (chapters (snd (syncContent example_services (example_db []) ''n1'' 7 (example_sub_id ''s'')
                       example_book (example_data ''chapter-2.md'')))) = [[], [''s'']] \<and>
   map (\<lambda>c. map ss_id (c_sections c))
     (chapters (snd (syncContent example_services
                       (snd (syncContent example_services (example_db []) ''n1'' 7
                               (example_sub_id ''s'') example_book (example_data ''chapter-2.md'')))
                       ''n2'' 8 (example_sub_id ''t'') example_book
                       (example_data ''chapter-2.md'')))) = [[], [''t'']] \<and>
   snd (syncContent example_services
          (snd (syncContent example_services (example_db []) ''n1'' 7 (example_sub_id ''s'')
                  example_book (example_data ''chapter-2.md'')))
          ''n2'' 8 (example_sub_id ''t'') example_book (example_data ''chapter-2.md'')) \<noteq>
   snd (syncContent example_services (example_db []) ''n1'' 7 (example_sub_id ''s'')
          example_book (example_data ''chapter-2.md''))"
proof -
  let ?dat = "example_data ''chapter-2.md''"
  let ?first = "syncContent example_services (example_db []) ''n1'' 7 (example_sub_id ''s'')
                  example_book ?dat"
  let ?second = "syncContent example_services (snd ?first) ''n2'' 8 (example_sub_id ''t'')
                   example_book ?dat"
  let ?ids = "\<lambda>d. map (\<lambda>c. map ss_id (c_sections c)) (chapters d)"
  have one: "map f [0..<length [x]] = [f 0]" for f :: "nat \<Rightarrow> objectId" and x :: chapter_section
    by simp
  obtain doc where first: "?first = (Created doc, (example_db [])\<lparr>chapters := chapters (example_db []) @ [doc]\<rparr>)"
    and doc: "c_id doc = ''n1''" "c_bookId doc = b_id example_book"
      "c_githubFilePath doc = d_path ?dat" "c_title doc = a_title (d_attributes ?dat)"
      "map ss_id (c_sections doc) = [''s'']"
    using syncContent_create_eq [OF example_findOne_path_absent [of "[]"],
        of example_services "''n1''" 7 "example_sub_id ''s''"]
    by (simp add: Let_def example_sections cast_sections_ids one example_sub_id_def)
  have d1: "chapters (snd ?first) = [example_chapter, doc]"
    unfolding first by (simp add: example_db_def)
  have a: "?ids (snd ?first) = [[], [''s'']]"
    unfolding d1 by (simp add: doc example_chapter_def)
  have found: "Chapter_findOne_path (snd ?first) (b_id example_book) (d_path ?dat) = Some doc"
    unfolding Chapter_findOne_path_def d1
    by (simp add: doc example_chapter_def example_data_def)
  obtain m where second: "?second =
      (Updated m, (snd ?first)\<lparr>chapters :=
         update_first (\<lambda>c. c_id c = c_id doc) (apply_set (example_sub_id ''t'') m)
           (chapters (snd ?first))\<rparr>)"
    and m: "m_sections m =
       [\<lparr>s_text = ''Install'', s_level = 2, s_escapedText = escapedText_of ''Install''\<rparr>]"
    using syncContent_update_eq [OF found, of example_services "''n2''" 8 "example_sub_id ''t''"]
    by (simp add: Let_def example_sections)
  have "chapters (snd ?second) = [example_chapter, apply_set (example_sub_id ''t'') m doc]"
    unfolding second d1 fst_conv snd_conv by (simp add: d1 doc example_chapter_def)
  then have b: "?ids (snd ?second) = [[], [''t'']]"
    by (simp add: example_chapter_def apply_set_writes m cast_sections_ids one example_sub_id_def)
  have "snd ?second \<noteq> snd ?first"
  proof
    assume "snd ?second = snd ?first"
    then have "?ids (snd ?second) = ?ids (snd ?first)" by simp
    with a b show False by simp
  qed
  with a b show ?thesis by (intro conjI)
qed

theorem syncContent_twice_witness:
  "distinct (map c_id (chapters (example_db []))) \<and>
   ''n1'' \<notin> c_id ` set (chapters (example_db [])) \<and>
   (\<exists>ch1 m'.
      Chapter_findOne_path
        (snd (syncContent example_services (example_db []) ''n1'' 7 (example_sub_id ''s'')
                example_book (example_data ''chapter-2.md''))) (b_id example_book)
        (d_path (example_data ''chapter-2.md'')) = Some ch1 \<and>
      fst (syncContent example_services
             (snd (syncContent example_services (example_db []) ''n1'' 7 (example_sub_id ''s'')
                     example_book (example_data ''chapter-2.md'')))
             ''n2'' 8 (example_sub_id ''t'') example_book (example_data ''chapter-2.md'')) =
        Updated m' \<and>
      m_title m' = None \<and> m_slug m' = None)"
proof -
  from syncContent_twice [where sv = example_services and d = "example_db []" and now = 7
      and subId = "example_sub_id ''s''" and book = example_book
      and dat = "example_data ''chapter-2.md''" and newId' = "''n2''" and now' = 8
      and subId' = "example_sub_id ''t''", OF example_distinct example_fresh]
  have "\<exists>ch1 m'.
      Chapter_findOne_path
        (snd (syncContent example_services (example_db []) ''n1'' 7 (example_sub_id ''s'')
                example_book (example_data ''chapter-2.md''))) (b_id example_book)
        (d_path (example_data ''chapter-2.md'')) = Some ch1 \<and>
      fst (syncContent example_services
             (snd (syncContent example_services (example_db []) ''n1'' 7 (example_sub_id ''s'')
                     example_book (example_data ''chapter-2.md'')))
             ''n2'' 8 (example_sub_id ''t'') example_book (example_data ''chapter-2.md'')) =
        Updated m' \<and>
      m_title m' = None \<and> m_slug m' = None"
    by (elim exE conjE) (intro exI conjI, assumption+)
  with example_distinct [of "[]"] example_fresh [of "[]"] show ?thesis
    by (intro conjI)
qed

end
